theory Spec2Isabelle
  imports Main "HOL-Library.Word" "HOL-Library.AList" "HOL-Library.Multiset"
begin

unbundle bit_operations_syntax

section \<open>Bytes, slices and the struct module\<close>

text \<open>
  A Python \<open>bytes\<close> object is a list of 8-bit words. Python integers are unbounded:
  values read by \<open>struct.unpack('<I', ...)\<close> are never negative and are kept as \<open>nat\<close>;
  differences that the source lets go negative (\<open>raw_size\<close>) are \<open>int\<close>.
\<close>

type_synonym byte = "8 word"
type_synonym bytes = "byte list"

text \<open>
  The exceptions of the two scripts: \<open>struct.error\<close> from \<open>struct.unpack\<close> and
  \<open>struct.pack\<close>, \<open>ValueError\<close> from an extended-slice assignment whose right-hand side
  has the wrong number of items, and \<open>IsADirectoryError\<close> from \<open>open\<close> on a path that names
  a directory.
\<close>

datatype error = StructError | ValueError | IsADirectoryError

text \<open>\<open>xs[a:b]\<close> for indices \<open>0 \<le> a\<close>, \<open>0 \<le> b\<close>: clipped to the buffer, never an error.\<close>

definition slice :: "'a list \<Rightarrow> nat \<Rightarrow> nat \<Rightarrow> 'a list" where
  "slice xs a b = take (b - a) (drop a xs)"

text \<open>The value of a little-endian byte string.\<close>

fun le_nat :: "bytes \<Rightarrow> nat" where
  "le_nat [] = 0"
| "le_nat (b # bs) = unat b + 256 * le_nat bs"

text \<open>\<open>struct.unpack('<I', chunk)[0]\<close>: raises unless the chunk has exactly 4 bytes.\<close>

definition unpack_I :: "bytes \<Rightarrow> error + nat" where
  "unpack_I chunk = (if length chunk = 4 then Inr (le_nat chunk) else Inl StructError)"

text \<open>\<open>struct.unpack('<IIII', chunk)\<close>: raises unless the chunk has exactly 16 bytes.\<close>

definition unpack_IIII :: "bytes \<Rightarrow> error + (nat \<times> nat \<times> nat \<times> nat)" where
  "unpack_IIII chunk =
     (if length chunk = 16
      then Inr (le_nat (slice chunk 0 4), le_nat (slice chunk 4 8),
                le_nat (slice chunk 8 12), le_nat (slice chunk 12 16))
      else Inl StructError)"

text \<open>
  \<open>data.find(sub, start)\<close> for \<open>0 \<le> start\<close>: the lowest index from \<open>start\<close> on at which
  \<open>sub\<close> occurs, \<open>None\<close> for Python's \<open>-1\<close>.
\<close>

fun find_at :: "bytes \<Rightarrow> bytes \<Rightarrow> nat \<Rightarrow> nat option" where
  "find_at sub [] i = (if sub = [] then Some i else None)"
| "find_at sub (x # xs) i =
     (if take (length sub) (x # xs) = sub then Some i else find_at sub xs (Suc i))"

definition bytes_find :: "bytes \<Rightarrow> bytes \<Rightarrow> nat \<Rightarrow> nat option" where
  "bytes_find data sub start =
     (if start \<le> length data then find_at sub (drop start data) start else None)"

section \<open>01-breaker.py: the partition table\<close>

text \<open>
  A partition is the dictionary \<open>{'offset': .., 'size': .., 'data': ..}\<close>; the table
  \<open>parts\<close> is a Python dict, kept as an association list in insertion order, with
  \<open>parts[name] = v\<close> as \<open>AList.update\<close>. The console report is not modelled.
\<close>

record partition =
  p_offset :: nat
  p_size :: nat
  p_data :: "bytes option"

type_synonym parts = "(string \<times> partition) list"

definition standard_entries :: "(nat \<times> string) list" where
  "standard_entries =
     [(0x70, ''part_0_flag''),
      (0x78, ''part_1_firmware_a''),
      (0x80, ''part_2_firmware_b''),
      (0xCC, ''part_3_resource''),
      (0x14C, ''part_5_main_fs'')]"

text \<open>The \<open>for header_pos, name in standard_entries\<close> loop; an exception leaves the loop
  and the function.\<close>

fun decode_standard :: "bytes \<Rightarrow> (nat \<times> string) list \<Rightarrow> parts \<Rightarrow> error + parts" where
  "decode_standard data [] parts = Inr parts"
| "decode_standard data ((header_pos, name) # rest) parts =
     (case unpack_IIII (slice data header_pos (header_pos + 16)) of
        Inl e \<Rightarrow> Inl e
      | Inr (offset, size', next_offset, _) \<Rightarrow>
          decode_standard data rest
            (AList.update name \<lparr>p_offset = offset, p_size = size', p_data = None\<rparr> parts))"

definition p4_pos :: nat where
  "p4_pos = 0xF4"

definition analyze_hybrid_headers :: "bytes \<Rightarrow> error + parts" where
  "analyze_hybrid_headers data =
     (case decode_standard data standard_entries [] of
        Inl e \<Rightarrow> Inl e
      | Inr parts \<Rightarrow>
          (case unpack_IIII (slice data p4_pos (p4_pos + 16)) of
             Inl e \<Rightarrow> Inl e
           | Inr (val1, val2, val3, _) \<Rightarrow>
               Inr (AList.update ''part_4_audio_dsp''
                      \<lparr>p_offset = val2, p_size = val3, p_data = None\<rparr> parts)))"


section \<open>03-bitmap.py: pixel data\<close>

definition MAGIC_SIG :: bytes where
  "MAGIC_SIG = [0x77, 0x00, 0x00, 0x3A, 0x75]"

text \<open>\<open>arr[0::2]\<close> and \<open>arr[1::2]\<close>.\<close>

fun even_slots :: "'a list \<Rightarrow> 'a list" where
  "even_slots [] = []"
| "even_slots [x] = [x]"
| "even_slots (x # y # xs) = x # even_slots xs"

fun odd_slots :: "'a list \<Rightarrow> 'a list" where
  "odd_slots [] = []"
| "odd_slots [x] = []"
| "odd_slots (x # y # xs) = y # odd_slots xs"

text \<open>
  \<open>arr[0::2] = vs\<close> and \<open>arr[1::2] = vs\<close> on a bytearray: the slots are overwritten in
  order; \<open>ValueError\<close> when \<open>vs\<close> does not have exactly one item per slot.
\<close>

fun assign_even_slots :: "'a list \<Rightarrow> 'a list \<Rightarrow> error + 'a list" where
  "assign_even_slots [] [] = Inr []"
| "assign_even_slots [x] [v] = Inr [v]"
| "assign_even_slots (x # y # xs) (v # vs) =
     (case assign_even_slots xs vs of Inl e \<Rightarrow> Inl e | Inr r \<Rightarrow> Inr (v # y # r))"
| "assign_even_slots xs vs = Inl ValueError"

fun assign_odd_slots :: "'a list \<Rightarrow> 'a list \<Rightarrow> error + 'a list" where
  "assign_odd_slots [] [] = Inr []"
| "assign_odd_slots [x] [] = Inr [x]"
| "assign_odd_slots (x # y # xs) (v # vs) =
     (case assign_odd_slots xs vs of Inl e \<Rightarrow> Inl e | Inr r \<Rightarrow> Inr (x # v # r))"
| "assign_odd_slots xs vs = Inl ValueError"

text \<open>
  \<open>arr[0::2], arr[1::2] = arr[1::2], arr[0::2]\<close>: both right-hand slices are taken from
  the array as it is before the first assignment.
\<close>

definition swap_bytes_16bit :: "bytes \<Rightarrow> error + bytes" where
  "swap_bytes_16bit data =
     (let arr = (if length data mod 2 \<noteq> 0 then butlast data else data);
          odds = odd_slots arr;
          evens = even_slots arr
      in case assign_even_slots arr odds of
           Inl e \<Rightarrow> Inl e
         | Inr arr' \<Rightarrow> assign_odd_slots arr' evens)"

text \<open>
  \<open>get_stride_info\<close>. The width is a value read by \<open>'<I'\<close>, so it is never negative; the
  arithmetic is Python's, on unbounded integers.
\<close>

definition get_stride_info :: "nat \<Rightarrow> int \<times> int \<times> int" where
  "get_stride_info width =
     (let src_stride = int width * 2;
          dst_stride = (src_stride + 3) AND NOT 3;
          padding = dst_stride - src_stride
      in (src_stride, dst_stride, padding))"

text \<open>One pass of the \<open>for y in range(height)\<close> loop of \<open>restride_to_bmp\<close>.\<close>

definition restride_row :: "bytes \<Rightarrow> int \<Rightarrow> int \<Rightarrow> bytes \<Rightarrow> nat \<Rightarrow> bytes" where
  "restride_row raw_data src_stride padding output y =
     (let src_start = int y * src_stride;
          src_end = src_start + src_stride;
          output' = output @ slice raw_data (nat src_start) (nat src_end)
      in if padding > 0 then output' @ replicate (nat padding) 0 else output')"

definition restride_to_bmp :: "bytes \<Rightarrow> nat \<Rightarrow> nat \<Rightarrow> bytes" where
  "restride_to_bmp raw_data width height =
     (case get_stride_info width of (src_stride, dst_stride, padding) \<Rightarrow>
        if padding = 0 \<and> int (length raw_data) = src_stride * int height then raw_data
        else
          let expected_len = src_stride * int height;
              raw_data' = (if int (length raw_data) < expected_len
                           then raw_data @ replicate (nat (expected_len - int (length raw_data))) 0
                           else raw_data)
          in foldl (restride_row raw_data' src_stride padding) [] [0..<height])"

section \<open>03-bitmap.py: the bitmap header\<close>

text \<open>\<open>n\<close> little-endian bytes of a value.\<close>

fun le_bytes :: "nat \<Rightarrow> nat \<Rightarrow> bytes" where
  "le_bytes 0 v = []"
| "le_bytes (Suc n) v = of_nat (v mod 256) # le_bytes n (v div 256)"

text \<open>\<open>struct.pack\<close> with \<open>'<I'\<close>, \<open>'<i'\<close> and \<open>'<H'\<close>: \<open>struct.error\<close> when the value is out
  of the format's range; \<open>'<i'\<close> is two's complement.\<close>

definition pack_I :: "int \<Rightarrow> error + bytes" where
  "pack_I v = (if 0 \<le> v \<and> v < 2 ^ 32 then Inr (le_bytes 4 (nat v)) else Inl StructError)"

definition pack_i :: "int \<Rightarrow> error + bytes" where
  "pack_i v =
     (if - (2 ^ 31) \<le> v \<and> v < 2 ^ 31 then Inr (le_bytes 4 (nat (v mod 2 ^ 32)))
      else Inl StructError)"

definition pack_H :: "int \<Rightarrow> error + bytes" where
  "pack_H v = (if 0 \<le> v \<and> v < 2 ^ 16 then Inr (le_bytes 2 (nat v)) else Inl StructError)"

text \<open>\<open>header += piece\<close>, where computing the piece may raise.\<close>

definition append_piece :: "error + bytes \<Rightarrow> error + bytes \<Rightarrow> error + bytes" where
  "append_piece header piece =
     (case header of
        Inl e \<Rightarrow> Inl e
      | Inr h \<Rightarrow> (case piece of Inl e \<Rightarrow> Inl e | Inr p \<Rightarrow> Inr (h @ p)))"

definition create_bmp_header :: "nat \<Rightarrow> nat \<Rightarrow> error + bytes" where
  "create_bmp_header width height =
     (case get_stride_info width of (src_stride, dst_stride, padding) \<Rightarrow>
        let image_size = dst_stride * int height;
            headers_size = 14 + 40 + 12;
            file_size = headers_size + image_size
        in foldl append_piece (Inr [0x42, 0x4D])
             [pack_I file_size,
              Inr [0, 0, 0, 0],
              pack_I headers_size,
              pack_I 40,
              pack_i (int width),
              pack_i (- int height),
              pack_H 1,
              pack_H 16,
              pack_I 3,
              pack_I image_size,
              pack_i 2835,
              pack_i 2835,
              pack_I 0,
              pack_I 0,
              pack_I 0xF800,
              pack_I 0x07E0,
              pack_I 0x001F])"

section \<open>03-bitmap.py: names\<close>

text \<open>\<open>bs.decode('ascii', errors='ignore')\<close>: every byte from \<open>0x80\<close> up is left out, every
  other byte is the character with that code.\<close>

definition decode_ascii_ignore :: "bytes \<Rightarrow> string" where
  "decode_ascii_ignore bs = map (\<lambda>b. char_of (unat b)) (filter (\<lambda>b. b < 0x80) bs)"

text \<open>
  \<open>decode_raw_name\<close>: \<open>null_pos = raw_bytes.find(b'\x00')\<close>, then \<open>raw_bytes[:null_pos]\<close>
  when a null byte was found, then the decoding. None of these operations raises on a
  bytes object, so the \<open>except\<close> branch that returns \<open>"unknown"\<close> is never taken.
\<close>

definition decode_raw_name :: "bytes \<Rightarrow> string" where
  "decode_raw_name raw_bytes =
     (let raw_bytes' = (case bytes_find raw_bytes [0x00] 0 of
                          None \<Rightarrow> raw_bytes
                        | Some null_pos \<Rightarrow> slice raw_bytes 0 null_pos)
      in decode_ascii_ignore raw_bytes')"

text \<open>\<open>str.replace\<close> for a single character, \<open>str.isalnum\<close>, \<open>str.isspace\<close>, \<open>str.strip\<close>,
  \<open>str.lower\<close> and \<open>str.endswith\<close>, on ASCII text.\<close>

definition replace_char :: "char \<Rightarrow> char \<Rightarrow> string \<Rightarrow> string" where
  "replace_char old new s = map (\<lambda>c. if c = old then new else c) s"

definition isalnum :: "char \<Rightarrow> bool" where
  "isalnum c =
     (let n = (of_char c :: nat)
      in (48 \<le> n \<and> n \<le> 57) \<or> (65 \<le> n \<and> n \<le> 90) \<or> (97 \<le> n \<and> n \<le> 122))"

definition isspace :: "char \<Rightarrow> bool" where
  "isspace c = (let n = (of_char c :: nat) in (9 \<le> n \<and> n \<le> 13) \<or> (28 \<le> n \<and> n \<le> 32))"

definition strip :: "string \<Rightarrow> string" where
  "strip s = rev (dropWhile isspace (rev (dropWhile isspace s)))"

definition lower :: "string \<Rightarrow> string" where
  "lower s =
     map (\<lambda>c. let n = (of_char c :: nat) in if 65 \<le> n \<and> n \<le> 90 then char_of (n + 32) else c) s"

definition endswith :: "string \<Rightarrow> string \<Rightarrow> bool" where
  "endswith s suffix = (length suffix \<le> length s \<and> drop (length s - length suffix) s = suffix)"

definition sanitize_filename :: "string \<Rightarrow> string" where
  "sanitize_filename original_name =
     (let safe = replace_char (CHR 0x5C) (CHR ''_'') (replace_char (CHR ''/'') (CHR ''_'') original_name)
      in strip (map (\<lambda>c. if isalnum c \<or> c \<in> set ''._-(), '' then c else CHR ''_'') safe))"


section \<open>03-bitmap.py: scanning the file table\<close>

text \<open>One entry of the list \<open>entries\<close>: the dictionary built at a signature match.\<close>

record entry =
  e_meta_pos :: nat
  e_offset :: nat
  e_width :: nat
  e_height :: nat
  e_original_name :: string

text \<open>
  The body of the \<open>try\<close> block up to the validity test. Each \<open>struct.unpack\<close> raises when
  its 4-byte slice is cut short by the end of the buffer; the name slice never raises.
\<close>

definition read_record :: "bytes \<Rightarrow> nat \<Rightarrow> error + (nat \<times> nat \<times> nat \<times> string)" where
  "read_record data pos =
     (case unpack_I (slice data (pos + 20) (pos + 24)) of
        Inl e \<Rightarrow> Inl e
      | Inr offset \<Rightarrow>
          (case unpack_I (slice data (pos + 24) (pos + 28)) of
             Inl e \<Rightarrow> Inl e
           | Inr width \<Rightarrow>
               (case unpack_I (slice data (pos + 28) (pos + 32)) of
                  Inl e \<Rightarrow> Inl e
                | Inr height \<Rightarrow>
                    (let name_bytes = slice data (pos + 32) (pos + 96);
                         original_name = decode_raw_name name_bytes
                     in Inr (offset, width, height, original_name)))))"

text \<open>The whole \<open>try ... except: pass\<close> statement: an exception leaves \<open>entries\<close> as it is.\<close>

definition try_entry :: "bytes \<Rightarrow> nat \<Rightarrow> entry list \<Rightarrow> entry list" where
  "try_entry data pos entries =
     (let file_size = length data
      in case read_record data pos of
           Inl e \<Rightarrow> entries
         | Inr (offset, width, height, original_name) \<Rightarrow>
             if offset < file_size \<and> length original_name > 0
             then entries @ [\<lparr>e_meta_pos = pos, e_offset = offset, e_width = width,
                              e_height = height, e_original_name = original_name\<rparr>]
             else entries)"

text \<open>The \<open>while True\<close> loop of \<open>main\<close>, with its two variables \<open>start_pos\<close> and \<open>entries\<close>.\<close>

function scan_loop :: "bytes \<Rightarrow> nat \<Rightarrow> entry list \<Rightarrow> entry list" where
  "scan_loop data start_pos entries =
     (case bytes_find data MAGIC_SIG start_pos of
        None \<Rightarrow> entries
      | Some pos \<Rightarrow> scan_loop data (pos + 1) (try_entry data pos entries))"
  by pat_completeness auto
termination
proof (relation "measure (\<lambda>(data, start_pos, entries). Suc (length data) - start_pos)")
  show "wf (measure (\<lambda>(data, start_pos, entries). Suc (length data) - start_pos))"
    by simp
next
  fix data :: bytes and start_pos :: nat and entries :: "entry list" and pos :: nat
  assume found: "bytes_find data MAGIC_SIG start_pos = Some pos"
  have at: "find_at sub xs i = Some p \<Longrightarrow> sub \<noteq> [] \<Longrightarrow> i \<le> p \<and> p < i + length xs"
    for sub xs and i p :: nat
  proof (induction xs arbitrary: i)
    case Nil
    then show ?case by simp
  next
    case (Cons x xs)
    show ?case
    proof (cases "take (length sub) (x # xs) = sub")
      case True
      with Cons.prems show ?thesis by simp
    next
      case False
      with Cons.prems have "find_at sub xs (Suc i) = Some p" by simp
      from Cons.IH [OF this Cons.prems(2)] show ?thesis by simp
    qed
  qed
  from found have "start_pos \<le> length data"
    and "find_at MAGIC_SIG (drop start_pos data) start_pos = Some pos"
    by (auto simp: bytes_find_def split: if_splits)
  with at [of MAGIC_SIG "drop start_pos data" start_pos pos]
  have "start_pos \<le> pos" and "pos < length data"
    by (auto simp: MAGIC_SIG_def)
  then show "((data, pos + 1, try_entry data pos entries), (data, start_pos, entries))
      \<in> measure (\<lambda>(data, start_pos, entries). Suc (length data) - start_pos)"
    by simp
qed

declare scan_loop.simps [simp del]

section \<open>03-bitmap.py: sizes, classification and the manifest\<close>

record transformations =
  byte_swap_applied :: bool
  row_padding_bytes :: int
  bmp_header_size :: nat

text \<open>One dictionary \<open>meta\<close> of the manifest.\<close>

record manifest_record =
  m_id :: nat
  original_firmware_name :: string
  original_offset :: nat
  original_raw_size :: int
  m_width :: nat
  m_height :: nat
  is_image :: bool
  m_transformations :: transformations
  saved_filename :: string

text \<open>\<open>min((e['meta_pos'] for e in entries), default=file_size)\<close>.\<close>

definition data_end_limit :: "entry list \<Rightarrow> nat \<Rightarrow> nat" where
  "data_end_limit entries file_size =
     (if entries = [] then file_size else min_list (map e_meta_pos entries))"

text \<open>
  The size computation at the head of the loop body, for index \<open>i\<close> of the sorted list
  (\<open>i < len(entries)\<close>, since \<open>i\<close> comes from \<open>enumerate\<close>).
\<close>

definition raw_size_at :: "entry list \<Rightarrow> nat \<Rightarrow> nat \<Rightarrow> nat \<Rightarrow> int" where
  "raw_size_at entries limit file_size i =
     (let offset = e_offset (entries ! i)
      in if int i < int (length entries) - 1
         then int (e_offset (entries ! (i + 1))) - int offset
         else (let raw_size = int limit - int offset
               in if raw_size < 0 then int file_size - int offset else raw_size))"

text \<open>
  The loop body for an entry that is not skipped, up to the point where the output is
  ready: \<open>raw_size\<close> is positive, so both ends of the slice
  \<open>data[offset:offset + raw_size]\<close> are non-negative. The result is \<open>meta\<close> (which has no
  \<open>saved_filename\<close> yet: the field is empty here), \<open>final_data\<close> and \<open>save_name_base\<close>.
\<close>

definition prepare_resource ::
  "bytes \<Rightarrow> nat \<Rightarrow> entry \<Rightarrow> int \<Rightarrow> error + (manifest_record \<times> bytes \<times> string)" where
  "prepare_resource data i entry raw_size =
     (let offset = e_offset entry;
          width = e_width entry;
          height = e_height entry;
          original_name = e_original_name entry;
          raw_data = slice data offset (nat (int offset + raw_size));
          save_name_base = sanitize_filename original_name;
          final_data = raw_data;
          meta = \<lparr>m_id = i, original_firmware_name = original_name, original_offset = offset,
                  original_raw_size = raw_size, m_width = width, m_height = height,
                  is_image = False,
                  m_transformations = \<lparr>byte_swap_applied = False, row_padding_bytes = 0,
                                         bmp_header_size = 0\<rparr>,
                  saved_filename = []\<rparr>
      in if width > 0 \<and> height > 0
         then (let expected_size = int width * int height * 2
               in if \<bar>raw_size - expected_size\<bar> < 4096
                  then (case get_stride_info width of (_, _, padding) \<Rightarrow>
                          (case swap_bytes_16bit raw_data of
                             Inl e \<Rightarrow> Inl e
                           | Inr swapped \<Rightarrow>
                               (let pixel_data = restride_to_bmp swapped width height
                                in case create_bmp_header width height of
                                     Inl e \<Rightarrow> Inl e
                                   | Inr header \<Rightarrow>
                                       Inr (meta\<lparr>is_image := True,
                                                 m_transformations :=
                                                   \<lparr>byte_swap_applied = True,
                                                    row_padding_bytes = padding,
                                                    bmp_header_size = length header\<rparr>\<rparr>,
                                            header @ pixel_data,
                                            if \<not> endswith (lower save_name_base) ''.bmp''
                                            then save_name_base @ ''.bmp''
                                            else save_name_base))))
                  else Inr (meta, final_data, save_name_base))
         else Inr (meta, final_data, save_name_base))"

text \<open>
  \<open>open(out_path, 'wb')\<close> with \<open>out_path = os.path.join(OUTPUT_DIR, save_name_base)\<close>. The
  name is a sanitized name, so it has no path separator and at most 68 characters, and
  the output directory holds nothing but the files of this run: the path names a
  directory, and \<open>open\<close> raises, exactly when the name is empty, \<open>.\<close> or \<open>..\<close>.
\<close>

definition open_output :: "string \<Rightarrow> error + unit" where
  "open_output save_name_base =
     (if save_name_base = [] \<or> save_name_base = ''.'' \<or> save_name_base = ''..''
      then Inl IsADirectoryError else Inr ())"

text \<open>
  The whole loop body for an entry that is not skipped: the output file is opened and
  written, then \<open>meta["saved_filename"]\<close> is set. The result is the dictionary appended to
  \<open>manifest\<close> together with the bytes written to the file named by \<open>saved_filename\<close>.
\<close>

definition emit_resource ::
  "bytes \<Rightarrow> nat \<Rightarrow> entry \<Rightarrow> int \<Rightarrow> error + (manifest_record \<times> bytes)" where
  "emit_resource data i entry raw_size =
     (case prepare_resource data i entry raw_size of
        Inl e \<Rightarrow> Inl e
      | Inr (meta, final_data, save_name_base) \<Rightarrow>
          (case open_output save_name_base of
             Inl e \<Rightarrow> Inl e
           | Inr _ \<Rightarrow> Inr (meta\<lparr>saved_filename := save_name_base\<rparr>, final_data)))"

text \<open>The \<open>for i, entry in enumerate(entries)\<close> loop; \<open>continue\<close> on a size that is not
  positive, and an exception ends the run before the manifest is written.\<close>

fun process_loop ::
  "bytes \<Rightarrow> entry list \<Rightarrow> nat \<Rightarrow> nat \<Rightarrow> nat list \<Rightarrow> (manifest_record \<times> bytes) list
     \<Rightarrow> error + (manifest_record \<times> bytes) list" where
  "process_loop data entries limit file_size [] manifest = Inr manifest"
| "process_loop data entries limit file_size (i # rest) manifest =
     (let raw_size = raw_size_at entries limit file_size i
      in if raw_size \<le> 0 then process_loop data entries limit file_size rest manifest
         else (case emit_resource data i (entries ! i) raw_size of
                 Inl e \<Rightarrow> Inl e
               | Inr r \<Rightarrow> process_loop data entries limit file_size rest (manifest @ [r])))"

text \<open>\<open>main\<close> from the sort on, for any list of scanned entries; \<open>list.sort\<close> is stable, as
  \<open>sort_key\<close> is.\<close>

definition process_entries ::
  "bytes \<Rightarrow> entry list \<Rightarrow> error + (manifest_record \<times> bytes) list" where
  "process_entries data scanned =
     (let file_size = length data;
          entries = sort_key e_offset scanned;
          limit = data_end_limit entries file_size
      in process_loop data entries limit file_size [0..<length entries] [])"

definition bitmap_main :: "bytes \<Rightarrow> error + (manifest_record \<times> bytes) list" where
  "bitmap_main data = process_entries data (scan_loop data 0 [])"

section \<open>Reference functions\<close>

text \<open>
  The swap in the specification's words: adjacent bytes exchanged pair by pair, a
  trailing odd byte dropped. It is compared below with \<open>swap_bytes_16bit\<close>.
\<close>

fun pair_swap :: "'a list \<Rightarrow> 'a list" where
  "pair_swap [] = []"
| "pair_swap [x] = []"
| "pair_swap (x # y # xs) = y # x # pair_swap xs"

text \<open>
  The name of a record in the specification's words: the name field truncated at its
  first null byte and decoded permissively, the bytes that ASCII cannot represent being
  dropped.
\<close>

fun permissive_name :: "bytes \<Rightarrow> string" where
  "permissive_name [] = []"
| "permissive_name (b # bs) =
     (if b = 0 then []
      else if b < 0x80 then char_of (unat b) # permissive_name bs
      else permissive_name bs)"

text \<open>
  The number that a little-endian byte string stands for: byte \<open>k\<close> counts \<open>256 ^ k\<close>.
\<close>

definition little_endian_value :: "bytes \<Rightarrow> nat" where
  "little_endian_value bs = sum_list (map (\<lambda>k. unat (bs ! k) * 256 ^ k) [0..<length bs])"

text \<open>
  The metadata record in the specification's words: from a signature match at \<open>pos\<close>, a
  little-endian 32-bit data offset at \<open>pos + 20\<close>, width at \<open>pos + 24\<close>, height at
  \<open>pos + 28\<close>, and the name in the 64-byte name field at \<open>pos + 32\<close>, each read from the
  bytes that lie inside the buffer. It is compared below with what the scanning loop
  collects.
\<close>

definition record_at :: "bytes \<Rightarrow> nat \<Rightarrow> entry" where
  "record_at data pos =
     \<lparr>e_meta_pos = pos,
      e_offset = little_endian_value (take 4 (drop (pos + 20) data)),
      e_width = little_endian_value (take 4 (drop (pos + 24) data)),
      e_height = little_endian_value (take 4 (drop (pos + 28) data)),
      e_original_name = permissive_name (take 64 (drop (pos + 32) data))\<rparr>"

text \<open>
  Boundary inference in the specification's words, for the descriptors sorted by data
  offset: the size of entry \<open>i\<close> before the last is \<open>offset[i+1] - offset[i]\<close>; the size of
  the last entry is the start of the metadata region minus \<open>offset[last]\<close>, or the image
  length minus \<open>offset[last]\<close> when that difference is negative. It is compared below
  with the sizes in the manifest.
\<close>

definition inferred_size :: "entry list \<Rightarrow> nat \<Rightarrow> nat \<Rightarrow> nat \<Rightarrow> int" where
  "inferred_size sorted_entries meta_start image_length i =
     (if i + 1 < length sorted_entries
      then int (e_offset (sorted_entries ! (i + 1))) - int (e_offset (sorted_entries ! i))
      else if int meta_start - int (e_offset (last sorted_entries)) < 0
           then int image_length - int (e_offset (last sorted_entries))
           else int meta_start - int (e_offset (last sorted_entries)))"

text \<open>
  The \<open>n\<close> little-endian bytes of a number: byte \<open>k\<close> is digit \<open>k\<close> in base 256.
\<close>

definition little_endian :: "nat \<Rightarrow> nat \<Rightarrow> bytes" where
  "little_endian n v = map (\<lambda>k. of_nat (v div 256 ^ k mod 256)) [0..<n]"

text \<open>
  The bitmap container header, field by field: the 14-byte file header (\<open>BM\<close>, file
  size, four reserved bytes, offset of the pixel data), the 40-byte info header (its
  size, width, negated height in two's complement, one plane, 16 bits per pixel,
  compression 3, image size, 2835 pixels per metre both ways, no palette) and the three
  RGB565 masks; the image size is \<open>height\<close> rows of \<open>width * 2\<close> bytes rounded up to a
  multiple of 4. It is compared below with \<open>create_bmp_header\<close>.
\<close>

definition bitmap_header :: "nat \<Rightarrow> nat \<Rightarrow> bytes" where
  "bitmap_header width height =
     (let image_size = (2 * width + 2 * (width mod 2)) * height
      in [0x42, 0x4D] @ little_endian 4 (66 + image_size) @ [0, 0, 0, 0] @
         little_endian 4 66 @ little_endian 4 40 @ little_endian 4 width @
         little_endian 4 (2 ^ 32 - height) @ little_endian 2 1 @ little_endian 2 16 @
         little_endian 4 3 @ little_endian 4 image_size @ little_endian 4 2835 @
         little_endian 4 2835 @ little_endian 4 0 @ little_endian 4 0 @
         little_endian 4 0xF800 @ little_endian 4 0x07E0 @ little_endian 4 0x001F)"

section \<open>Example inputs\<close>

text \<open>
  A 348-byte image that is zero except for the Type-B header at \<open>0xF4\<close>, which holds the
  bytes quoted in the source: type 1, start \<open>0x0076251A\<close>, size \<open>0x0025342A\<close>.
\<close>

definition type_b_buffer :: bytes where
  "type_b_buffer =
     replicate 0xF4 0 @
     [0x01, 0x00, 0x00, 0x00, 0x1A, 0x25, 0x76, 0x00,
      0x2A, 0x34, 0x25, 0x00, 0x00, 0x00, 0x00, 0x00] @
     replicate 88 0"

text \<open>An image that ends right after the Type-B header, and one that ends right after
  the third Type-A header.\<close>

definition short_buffer :: bytes where
  "short_buffer = replicate 0x104 0"

definition three_header_buffer :: bytes where
  "three_header_buffer = replicate 0x90 0"

text \<open>The pixel bytes of a 4 by 2 image, 16 bits per pixel.\<close>

definition pixels_4x2 :: bytes where
  "pixels_4x2 = [0x01, 0x02, 0x03, 0x04, 0x05, 0x06, 0x07, 0x08,
                 0x09, 0x0A, 0x0B, 0x0C, 0x0D, 0x0E, 0x0F, 0x10]"

text \<open>Ten pixel bytes for a 3 by 2 image, which needs twelve.\<close>

definition short_pixels :: bytes where
  "short_pixels = [0x01, 0x02, 0x03, 0x04, 0x05, 0x06, 0x07, 0x08, 0x09, 0x0A]"

text \<open>A 2 by 1 image of four bytes at offset 0, under a name with a colon and a slash.\<close>

definition icon_data :: bytes where
  "icon_data = [0x12, 0x34, 0x56, 0x78]"

definition icon_entry :: entry where
  "icon_entry = \<lparr>e_meta_pos = 4, e_offset = 0, e_width = 2, e_height = 1,
                  e_original_name = ''icon:back/1.png''\<rparr>"

text \<open>The 66 header bytes of a 2 by 1 bitmap.\<close>

definition header_2x1 :: bytes where
  "header_2x1 =
     [0x42, 0x4D, 0x46, 0x00, 0x00, 0x00, 0x00, 0x00, 0x00, 0x00, 0x42, 0x00, 0x00, 0x00,
      0x28, 0x00, 0x00, 0x00, 0x02, 0x00, 0x00, 0x00, 0xFF, 0xFF, 0xFF, 0xFF,
      0x01, 0x00, 0x10, 0x00, 0x03, 0x00, 0x00, 0x00, 0x04, 0x00, 0x00, 0x00,
      0x13, 0x0B, 0x00, 0x00, 0x13, 0x0B, 0x00, 0x00,
      0x00, 0x00, 0x00, 0x00, 0x00, 0x00, 0x00, 0x00,
      0x00, 0xF8, 0x00, 0x00, 0xE0, 0x07, 0x00, 0x00, 0x1F, 0x00, 0x00, 0x00]"

text \<open>
  A 45-byte filesystem partition: four pixel bytes, then at position 4 a metadata record
  (offset 0, width 2, height 1) whose name field holds \<open>a\<close>, the byte \<open>0xE9\<close>, \<open>b\<close> and a
  null byte, and is cut short by a second signature at position 40, which is the last
  thing in the buffer.
\<close>

definition fs_image :: bytes where
  "fs_image =
     [0x12, 0x34, 0x56, 0x78,
      0x77, 0x00, 0x00, 0x3A, 0x75,
      0, 0, 0, 0, 0, 0, 0, 0, 0, 0, 0, 0, 0, 0, 0,
      0x00, 0x00, 0x00, 0x00,
      0x02, 0x00, 0x00, 0x00,
      0x01, 0x00, 0x00, 0x00,
      0x61, 0xE9, 0x62, 0x00,
      0x77, 0x00, 0x00, 0x3A, 0x75]"

text \<open>
  Three descriptors of resources that are not images, in the order of their metadata
  records, which start at 700; their data offsets are 250, 100 and 600 in a partition of
  1000 bytes.
\<close>

definition boundary_data :: bytes where
  "boundary_data = replicate 1000 0"

definition boundary_entries :: "entry list" where
  "boundary_entries =
     [\<lparr>e_meta_pos = 700, e_offset = 250, e_width = 0, e_height = 0, e_original_name = ''b''\<rparr>,
      \<lparr>e_meta_pos = 796, e_offset = 100, e_width = 0, e_height = 0, e_original_name = ''a''\<rparr>,
      \<lparr>e_meta_pos = 892, e_offset = 600, e_width = 0, e_height = 0, e_original_name = ''c''\<rparr>]"

text \<open>Three descriptors of which two share the data offset 100.\<close>

definition shared_offset_entries :: "entry list" where
  "shared_offset_entries =
     [\<lparr>e_meta_pos = 700, e_offset = 100, e_width = 0, e_height = 0, e_original_name = ''x''\<rparr>,
      \<lparr>e_meta_pos = 796, e_offset = 50, e_width = 0, e_height = 0, e_original_name = ''y''\<rparr>,
      \<lparr>e_meta_pos = 892, e_offset = 100, e_width = 0, e_height = 0, e_original_name = ''z''\<rparr>]"








section \<open>Verification: slices and header reads\<close>

lemma length_slice: "length (slice xs a b) = min (b - a) (length xs - a)"
  by (simp add: slice_def)

lemma slice_slice: "j \<le> d \<Longrightarrow> slice (slice xs a (a + d)) i j = slice xs (a + i) (a + j)"
  unfolding slice_def
  by (simp add: drop_take min_def add.commute)

lemma unpack_IIII_slice:
  "unpack_IIII (slice data pos (pos + 16)) =
     (if pos + 16 \<le> length data
      then Inr (le_nat (slice data pos (pos + 4)), le_nat (slice data (pos + 4) (pos + 8)),
                le_nat (slice data (pos + 8) (pos + 12)), le_nat (slice data (pos + 12) (pos + 16)))
      else Inl StructError)"
proof (cases "pos + 16 \<le> length data")
  case True
  then have len: "length (slice data pos (pos + 16)) = 16"
    by (simp add: length_slice)
  show ?thesis
    using True slice_slice [of _ 16 data pos]
    by (simp add: unpack_IIII_def len)
next
  case False
  then have "length (slice data pos (pos + 16)) \<noteq> 16"
    by (simp add: length_slice)
  with False show ?thesis
    by (simp add: unpack_IIII_def)
qed

lemma unpack_IIII_at:
  "b = pos + 16 \<Longrightarrow> unpack_IIII (slice data pos b) =
     (if b \<le> length data
      then Inr (le_nat (slice data pos (pos + 4)), le_nat (slice data (pos + 4) (pos + 8)),
                le_nat (slice data (pos + 8) (pos + 12)), le_nat (slice data (pos + 12) b))
      else Inl StructError)"
  by (simp add: unpack_IIII_slice)

lemma analyze_long:
  assumes "0x15C \<le> length data"
  shows "analyze_hybrid_headers data = Inr
     [(''part_0_flag'', \<lparr>p_offset = le_nat (slice data 0x70 0x74), p_size = le_nat (slice data 0x74 0x78), p_data = None\<rparr>),
      (''part_1_firmware_a'', \<lparr>p_offset = le_nat (slice data 0x78 0x7C), p_size = le_nat (slice data 0x7C 0x80), p_data = None\<rparr>),
      (''part_2_firmware_b'', \<lparr>p_offset = le_nat (slice data 0x80 0x84), p_size = le_nat (slice data 0x84 0x88), p_data = None\<rparr>),
      (''part_3_resource'', \<lparr>p_offset = le_nat (slice data 0xCC 0xD0), p_size = le_nat (slice data 0xD0 0xD4), p_data = None\<rparr>),
      (''part_5_main_fs'', \<lparr>p_offset = le_nat (slice data 0x14C 0x150), p_size = le_nat (slice data 0x150 0x154), p_data = None\<rparr>),
      (''part_4_audio_dsp'', \<lparr>p_offset = le_nat (slice data 0xF8 0xFC), p_size = le_nat (slice data 0xFC 0x100), p_data = None\<rparr>)]"
  using assms
  by (simp add: analyze_hybrid_headers_def standard_entries_def p4_pos_def unpack_IIII_at)

lemma analyze_short:
  assumes "length data < 0x15C"
  shows "analyze_hybrid_headers data = Inl StructError"
  using assms
  by (simp add: analyze_hybrid_headers_def standard_entries_def p4_pos_def unpack_IIII_at)

lemma length_type_b_buffer: "length type_b_buffer = 0x15C"
  by (simp add: type_b_buffer_def)

lemma type_b_buffer_words:
  "le_nat (slice type_b_buffer 0xF4 0xF8) = 1"
  "le_nat (slice type_b_buffer 0xF8 0xFC) = 0x76251A"
  "le_nat (slice type_b_buffer 0xFC 0x100) = 0x25342A"
  by (simp_all add: type_b_buffer_def slice_def)

section \<open>Verification: the partition table decoder\<close>

text \<open>
  C1 (as amended). For every buffer of at least \<open>0x15C\<close> bytes, that is, long enough for
  all five Type-A reads and the Type-B read, the decoder returns a table in which
  \<open>part_4_audio_dsp\<close> has as offset the second little-endian 32-bit word of the 16-byte
  header at \<open>0xF4\<close> and as size its third word, whatever the first word is.
\<close>

theorem type_b_reads_words_2_and_3:
  assumes "0x15C \<le> length data"
  shows "\<exists>parts. analyze_hybrid_headers data = Inr parts \<and>
           map_of parts ''part_4_audio_dsp'' =
             Some \<lparr>p_offset = le_nat (slice data (p4_pos + 4) (p4_pos + 8)),
                   p_size = le_nat (slice data (p4_pos + 8) (p4_pos + 12)),
                   p_data = None\<rparr>"
  using analyze_long [OF assms] by (simp add: p4_pos_def)

text \<open>On the example image the first word is 1 and the pair selected is
  \<open>(0x76251A, 0x25342A)\<close>, not \<open>(1, 0x76251A)\<close>.\<close>

theorem type_b_reads_words_2_and_3_witness:
  "0x15C \<le> length type_b_buffer \<and>
   le_nat (slice type_b_buffer p4_pos (p4_pos + 4)) = 1 \<and>
   (\<exists>parts. analyze_hybrid_headers type_b_buffer = Inr parts \<and>
      map_of parts ''part_4_audio_dsp'' =
        Some \<lparr>p_offset = 0x76251A, p_size = 0x25342A, p_data = None\<rparr>)"
proof -
  have len: "0x15C \<le> length type_b_buffer"
    by (simp add: length_type_b_buffer)
  from type_b_reads_words_2_and_3 [OF len] show ?thesis
    using len by (simp add: p4_pos_def type_b_buffer_words)
qed

text \<open>
  C1 as stated fails on a buffer that holds the whole Type-B header but not the Type-A
  header at \<open>0x14C\<close>: the Type-A loop runs first and raises, so nothing is assigned.
\<close>

theorem type_b_short_buffer_counterexample:
  "p4_pos + 16 \<le> length short_buffer \<and>
   analyze_hybrid_headers short_buffer = Inl StructError"
  using analyze_short [of short_buffer]
  by (simp add: short_buffer_def p4_pos_def)

text \<open>
  C2 (as amended). The decode raises \<open>struct.error\<close>, and returns no table at all, exactly
  when the buffer is shorter than \<open>0x15C\<close> bytes, the end of the last fixed header; there
  is no per-header failure.
\<close>

theorem decode_aborts_iff_short:
  "analyze_hybrid_headers data = Inl StructError \<longleftrightarrow> length data < 0x15C"
proof (cases "length data < 0x15C")
  case True
  then show ?thesis by (simp add: analyze_short)
next
  case False
  then have "0x15C \<le> length data" by simp
  from analyze_long [OF this] False show ?thesis by simp
qed

text \<open>
  C2 as stated fails on a buffer of \<open>0x90\<close> bytes: the headers at \<open>0x70\<close>, \<open>0x78\<close> and
  \<open>0x80\<close> lie fully inside it, yet no partition entry is produced.
\<close>

theorem no_partial_decode_counterexample:
  "0x70 + 16 \<le> length three_header_buffer \<and>
   0x78 + 16 \<le> length three_header_buffer \<and>
   0x80 + 16 \<le> length three_header_buffer \<and>
   analyze_hybrid_headers three_header_buffer = Inl StructError"
  using analyze_short [of three_header_buffer]
  by (simp add: three_header_buffer_def)

text \<open>
  C9. For every buffer long enough for all six header reads the decoder returns a table
  with exactly six entries, under six distinct names: \<open>part_0_flag\<close>,
  \<open>part_1_firmware_a\<close>, \<open>part_2_firmware_b\<close>, \<open>part_3_resource\<close>, \<open>part_5_main_fs\<close> and
  \<open>part_4_audio_dsp\<close> (in the order of insertion).
\<close>

theorem six_partitions:
  assumes "0x15C \<le> length data"
  shows "\<exists>parts. analyze_hybrid_headers data = Inr parts \<and>
           map fst parts =
             [''part_0_flag'', ''part_1_firmware_a'', ''part_2_firmware_b'',
              ''part_3_resource'', ''part_5_main_fs'', ''part_4_audio_dsp''] \<and>
           distinct (map fst parts) \<and> length parts = 6"
  using analyze_long [OF assms] by simp

theorem six_partitions_witness:
  "0x15C \<le> length type_b_buffer \<and>
   (\<exists>parts. analyze_hybrid_headers type_b_buffer = Inr parts \<and>
      map fst parts =
        [''part_0_flag'', ''part_1_firmware_a'', ''part_2_firmware_b'',
         ''part_3_resource'', ''part_5_main_fs'', ''part_4_audio_dsp''] \<and>
      distinct (map fst parts) \<and> length parts = 6)"
proof -
  have len: "0x15C \<le> length type_b_buffer"
    by (simp add: length_type_b_buffer)
  from six_partitions [OF len] len show ?thesis by blast
qed

section \<open>Verification: the 16-bit endian swap\<close>

lemma assign_slots_pair_swap:
  "even (length arr) \<Longrightarrow>
   \<exists>arr'. assign_even_slots arr (odd_slots arr) = Inr arr' \<and>
          assign_odd_slots arr' (even_slots arr) = Inr (pair_swap arr)"
proof (induction arr rule: pair_swap.induct)
  case 1
  show ?case by simp
next
  case (2 x)
  then show ?case by simp
next
  case (3 x y xs)
  then obtain arr' where "assign_even_slots xs (odd_slots xs) = Inr arr'"
    and "assign_odd_slots arr' (even_slots xs) = Inr (pair_swap xs)"
    by auto
  then show ?case by simp
qed

lemma pair_swap_butlast: "odd (length xs) \<Longrightarrow> pair_swap (butlast xs) = pair_swap xs"
  by (induction xs rule: pair_swap.induct) auto

lemma length_pair_swap: "length (pair_swap xs) = 2 * (length xs div 2)"
  by (induction xs rule: pair_swap.induct) auto

lemma pair_swap_twice: "even (length xs) \<Longrightarrow> pair_swap (pair_swap xs) = xs"
  by (induction xs rule: pair_swap.induct) auto

lemma pair_swap_nth:
  "i < length xs div 2 \<Longrightarrow>
   pair_swap xs ! (2 * i) = xs ! (2 * i + 1) \<and> pair_swap xs ! (2 * i + 1) = xs ! (2 * i)"
proof (induction xs arbitrary: i rule: pair_swap.induct)
  case 1
  then show ?case by simp
next
  case (2 x)
  then show ?case by simp
next
  case (3 x y xs)
  show ?case
  proof (cases i)
    case 0
    then show ?thesis by simp
  next
    case (Suc j)
    with "3.prems" have "j < length xs div 2" by simp
    from "3.IH" [OF this] Suc show ?thesis by simp
  qed
qed

lemma swap_bytes_16bit_eq: "swap_bytes_16bit data = Inr (pair_swap data)"
proof (cases "even (length data)")
  case True
  from assign_slots_pair_swap [OF True] True show ?thesis
    by (auto simp: swap_bytes_16bit_def Let_def)
next
  case False
  then have "even (length (butlast data))" by simp
  from assign_slots_pair_swap [OF this] False show ?thesis
    by (auto simp: swap_bytes_16bit_def Let_def pair_swap_butlast odd_iff_mod_2_eq_one)
qed

text \<open>
  C5. The swap never raises; its result has the input's length rounded down to a multiple
  of 2 and holds every adjacent byte pair of the input exchanged (a trailing odd byte is
  dropped); on an even-length buffer, swapping the result again gives back the buffer.
\<close>

theorem swap_bytes_16bit_pairs:
  "\<exists>out. swap_bytes_16bit data = Inr out \<and>
     length out = 2 * (length data div 2) \<and>
     (\<forall>i < length data div 2.
        out ! (2 * i) = data ! (2 * i + 1) \<and> out ! (2 * i + 1) = data ! (2 * i)) \<and>
     (even (length data) \<longrightarrow> swap_bytes_16bit out = Inr data)"
  using pair_swap_nth [of _ data]
  by (simp add: swap_bytes_16bit_eq length_pair_swap pair_swap_twice)

theorem swap_bytes_16bit_pairs_witness:
  "even (length pixels_4x2) \<and> 0 < length pixels_4x2 div 2 \<and>
   (\<exists>out. swap_bytes_16bit pixels_4x2 = Inr out \<and> length out = 16 \<and>
      out ! 0 = 0x02 \<and> out ! 1 = 0x01 \<and> swap_bytes_16bit out = Inr pixels_4x2)"
proof -
  have ev: "even (length pixels_4x2)" and pos: "0 < length pixels_4x2 div 2"
    by (simp_all add: pixels_4x2_def)
  from swap_bytes_16bit_pairs [of pixels_4x2] obtain out where
    out: "swap_bytes_16bit pixels_4x2 = Inr out"
    and len: "length out = 2 * (length pixels_4x2 div 2)"
    and nth: "\<forall>i < length pixels_4x2 div 2.
        out ! (2 * i) = pixels_4x2 ! (2 * i + 1) \<and> out ! (2 * i + 1) = pixels_4x2 ! (2 * i)"
    and twice: "even (length pixels_4x2) \<longrightarrow> swap_bytes_16bit out = Inr pixels_4x2"
    by blast
  from nth pos have "out ! (2 * 0) = pixels_4x2 ! (2 * 0 + 1) \<and> out ! (2 * 0 + 1) = pixels_4x2 ! (2 * 0)"
    by blast
  then have "out ! 0 = 0x02" and "out ! 1 = 0x01"
    by (simp_all add: pixels_4x2_def)
  moreover from len have "length out = 16"
    by (simp add: pixels_4x2_def)
  moreover from twice ev have "swap_bytes_16bit out = Inr pixels_4x2"
    by blast
  ultimately show ?thesis
    using ev pos out by blast
qed

section \<open>Verification: strides and restriding\<close>

lemma and_not_3: "(k::int) AND NOT 3 = 4 * (k div 4)"
proof -
  have m: "(3::int) = mask 2"
    by (simp add: mask_eq_exp_minus_1)
  have "bit (k AND NOT (mask 2)) n = bit (push_bit 2 (drop_bit 2 k)) n" for n
  proof (cases "2 \<le> n")
    case True
    then obtain j where "n = j + 2"
      by (metis le_add_diff_inverse2)
    then show ?thesis by (simp add: bit_simps)
  next
    case False
    then show ?thesis by (simp add: bit_simps)
  qed
  then have "k AND NOT (mask 2) = push_bit 2 (drop_bit 2 k)"
    by (rule bit_eqI)
  then show ?thesis
    by (simp only: m push_bit_eq_mult drop_bit_eq_div) simp
qed

lemma get_stride_info_eq:
  "get_stride_info width =
     (int (2 * width), int (2 * width + 2 * (width mod 2)), int (2 * (width mod 2)))"
proof -
  have "4 * ((int width * 2 + 3) div 4) = int width * 2 + 2 * (int width mod 2)"
    by presburger
  then have dst: "(int width * 2 + 3) AND NOT 3 = int width * 2 + 2 * (int width mod 2)"
    by (simp only: and_not_3)
  show ?thesis
    unfolding get_stride_info_def Let_def dst
    by (simp add: zmod_int)
qed


lemma slice_append1: "b \<le> length xs \<Longrightarrow> slice (xs @ ys) a b = slice xs a b"
  by (simp add: slice_def)

lemma foldl_restride_row:
  "foldl (restride_row rd (int s) (int p)) acc ys =
     acc @ concat (map (\<lambda>y. slice rd (y * s) (y * s + s) @ replicate p 0) ys)"
proof (induction ys arbitrary: acc)
  case Nil
  show ?case by simp
next
  case (Cons y ys)
  have "restride_row rd (int s) (int p) acc y = acc @ slice rd (y * s) (y * s + s) @ replicate p 0"
    by (simp add: restride_row_def Let_def nat_mult_distrib nat_add_distrib)
  then show ?case by (simp add: Cons.IH)
qed

lemma concat_slices:
  "concat (map (\<lambda>y. slice xs (y * s) (y * s + s)) [0..<h]) = take (h * s) xs"
proof (induction h)
  case 0
  show ?case by simp
next
  case (Suc h)
  have "take (h * s + s) xs = take (h * s) xs @ take s (drop (h * s) xs)"
    by (simp add: take_add)
  with Suc show ?case by (simp add: slice_def add.commute)
qed

lemma length_concat_rows:
  "(\<forall>y<h. length (f y) = d) \<Longrightarrow> length (concat (map f [0..<h])) = h * d"
  by (induction h) simp_all

lemma slice_concat_rows:
  "(\<forall>y<h. length (f y) = d) \<Longrightarrow> y < h \<Longrightarrow>
   slice (concat (map f [0..<h])) (y * d) (y * d + d) = f y"
proof (induction h)
  case 0
  then show ?case by simp
next
  case (Suc h)
  then have rows: "\<forall>y<h. length (f y) = d" and last: "length (f h) = d"
    by simp_all
  have len: "length (concat (map f [0..<h])) = h * d"
    by (rule length_concat_rows [OF rows])
  show ?case
  proof (cases "y < h")
    case True
    then have "Suc y \<le> h" by simp
    then have "Suc y * d \<le> h * d" by (rule mult_le_mono1)
    then have "y * d + d \<le> length (concat (map f [0..<h]))"
      by (simp add: len add.commute)
    then show ?thesis
      using Suc.IH [OF rows True] by (simp add: slice_append1)
  next
    case False
    with Suc.prems have "y = h" by simp
    then show ?thesis
      by (simp add: slice_def len last)
  qed
qed


lemma restride_to_bmp_eq:
  "restride_to_bmp raw_data width height =
     concat (map (\<lambda>y. slice (raw_data @ replicate (2 * width * height - length raw_data) 0)
                          (y * (2 * width)) (y * (2 * width) + 2 * width)
                        @ replicate (2 * (width mod 2)) 0)
                 [0..<height])"
proof (cases "2 * (width mod 2) = 0 \<and> length raw_data = 2 * width * height")
  case True
  then have "restride_to_bmp raw_data width height = raw_data"
    by (simp add: restride_to_bmp_def get_stride_info_eq flip: of_nat_mult)
  moreover have "concat (map (\<lambda>y. slice raw_data (y * (2 * width)) (y * (2 * width) + 2 * width))
                   [0..<height]) = raw_data"
    using True by (simp add: concat_slices mult.commute)
  ultimately show ?thesis using True by simp
next
  case False
  have pad: "(if int (length raw_data) < int (2 * width) * int height
              then raw_data @ replicate (nat (int (2 * width) * int height - int (length raw_data))) 0
              else raw_data)
             = raw_data @ replicate (2 * width * height - length raw_data) 0"
    by (simp add: nat_diff_distrib nat_mult_distrib flip: of_nat_mult)
  have "restride_to_bmp raw_data width height =
          foldl (restride_row (raw_data @ replicate (2 * width * height - length raw_data) 0)
                   (int (2 * width)) (int (2 * (width mod 2)))) [] [0..<height]"
    using False unfolding restride_to_bmp_def get_stride_info_eq Let_def pad [symmetric]
    by (auto simp flip: of_nat_mult)
  then show ?thesis by (simp only: foldl_restride_row append_Nil)
qed

lemma replicate_numeral: "replicate (numeral k) x = x # replicate (pred_numeral k) x"
  by (simp add: numeral_eq_Suc)

text \<open>
  C6. With \<open>(src_stride, dst_stride, padding) = get_stride_info width\<close>: \<open>src_stride\<close> is
  \<open>width * 2\<close>, \<open>dst_stride\<close> is \<open>(src_stride + 3) & ~3\<close>, a multiple of 4 that exceeds
  \<open>src_stride\<close> by less than 4, and \<open>restride_to_bmp\<close>, which cannot raise, returns
  \<open>height\<close> rows of \<open>dst_stride\<close> bytes each; row \<open>y\<close> is source row \<open>y\<close> of the input
  extended by zero bytes, followed by \<open>dst_stride - src_stride\<close> zero bytes. The input may
  be extended by any number \<open>n\<close> of zero bytes that brings it to \<open>src_stride * height\<close>
  bytes or more, so a short input is read as if zero-padded.
\<close>

theorem restride_pads_rows:
  assumes "get_stride_info width = (src_stride, dst_stride, padding)"
  shows "src_stride = int width * 2 \<and>
         dst_stride = (src_stride + 3) AND NOT 3 \<and>
         padding = dst_stride - src_stride \<and>
         dst_stride mod 4 = 0 \<and> src_stride \<le> dst_stride \<and> dst_stride < src_stride + 4 \<and>
         length (restride_to_bmp raw_data width height) = height * nat dst_stride \<and>
         (\<forall>y<height. \<forall>n\<ge>nat src_stride * height - length raw_data.
            slice (restride_to_bmp raw_data width height)
                  (y * nat dst_stride) (y * nat dst_stride + nat dst_stride) =
            slice (raw_data @ replicate n 0) (y * nat src_stride) (y * nat src_stride + nat src_stride)
              @ replicate (nat padding) 0)"
proof -
  define s where "s = 2 * width"
  define p where "p = 2 * (width mod 2)"
  define padded where "padded = raw_data @ replicate (s * height - length raw_data) 0"
  define row where "row = (\<lambda>y. slice padded (y * s) (y * s + s) @ replicate p 0)"
  from assms have src: "src_stride = int s" and dst: "dst_stride = int (s + p)"
    and pad: "padding = int p"
    by (simp_all add: get_stride_info_eq s_def p_def)
  have nsrc: "nat src_stride = s" and ndst: "nat dst_stride = s + p" and npad: "nat padding = p"
    by (simp_all only: src dst pad nat_int)
  have fields: "src_stride = int width * 2 \<and> dst_stride = (src_stride + 3) AND NOT 3 \<and>
      padding = dst_stride - src_stride"
    using assms by (auto simp: get_stride_info_def Let_def)
  from fields have "dst_stride = 4 * ((src_stride + 3) div 4)"
    by (simp only: and_not_3)
  then have m4: "dst_stride mod 4 = 0"
    by simp
  have bounds: "src_stride \<le> dst_stride \<and> dst_stride < src_stride + 4"
    unfolding src dst p_def by simp
  have eq: "restride_to_bmp raw_data width height = concat (map row [0..<height])"
    by (simp add: restride_to_bmp_eq row_def padded_def s_def p_def)
  have row_len: "\<forall>y<height. length (row y) = s + p"
  proof (intro allI impI)
    fix y assume "y < height"
    then have "Suc y \<le> height" by simp
    then have "Suc y * s \<le> height * s" by (rule mult_le_mono1)
    moreover have "height * s \<le> length padded"
      by (simp add: padded_def mult.commute)
    ultimately have "y * s + s \<le> length padded" by (simp add: add.commute)
    then show "length (row y) = s + p"
      by (simp add: row_def length_slice)
  qed
  have len: "length (restride_to_bmp raw_data width height) = height * nat dst_stride"
    unfolding eq ndst by (simp add: length_concat_rows [OF row_len])
  have rows: "slice (restride_to_bmp raw_data width height)
                  (y * nat dst_stride) (y * nat dst_stride + nat dst_stride) =
            slice (raw_data @ replicate n 0) (y * nat src_stride) (y * nat src_stride + nat src_stride)
              @ replicate (nat padding) 0"
    if y: "y < height" and n: "nat src_stride * height - length raw_data \<le> n" for y n
  proof -
    from n have "s * height - length raw_data \<le> n" by (simp only: nsrc)
    then have split: "raw_data @ replicate n 0 =
        padded @ replicate (n - (s * height - length raw_data)) 0"
      by (simp add: padded_def flip: replicate_add)
    from y have "Suc y \<le> height" by simp
    then have "Suc y * s \<le> height * s" by (rule mult_le_mono1)
    moreover have "height * s \<le> length padded"
      by (simp add: padded_def mult.commute)
    ultimately have fit: "y * s + s \<le> length padded" by (simp add: add.commute)
    have "slice (concat (map row [0..<height])) (y * (s + p)) (y * (s + p) + (s + p)) = row y"
      by (rule slice_concat_rows [OF row_len y])
    then show ?thesis
      unfolding eq nsrc ndst npad split
      by (simp add: row_def slice_append1 [OF fit])
  qed
  from fields m4 bounds len rows show ?thesis by blast
qed

theorem restride_pads_rows_witness:
  "get_stride_info 3 = (6, 8, 2) \<and> (1::nat) < 2 \<and>
   nat 6 * 2 - length short_pixels \<le> (2::nat) \<and>
   length (restride_to_bmp short_pixels 3 2) = 16 \<and>
   slice (restride_to_bmp short_pixels 3 2) 8 16 = [0x07, 0x08, 0x09, 0x0A, 0, 0, 0, 0]"
proof -
  have g: "get_stride_info 3 = (6, 8, 2)"
    by (simp add: get_stride_info_def)
  have n: "nat 6 * 2 - length short_pixels \<le> (2::nat)"
    by (simp add: short_pixels_def)
  from restride_pads_rows [OF g, of short_pixels 2]
  have len: "length (restride_to_bmp short_pixels 3 2) = 2 * nat 8"
    and rows: "\<forall>y<2. \<forall>n\<ge>nat 6 * 2 - length short_pixels.
            slice (restride_to_bmp short_pixels 3 2) (y * nat 8) (y * nat 8 + nat 8) =
            slice (short_pixels @ replicate n 0) (y * nat 6) (y * nat 6 + nat 6)
              @ replicate (nat 2) 0"
    by blast+
  from rows n have "slice (restride_to_bmp short_pixels 3 2) (1 * nat 8) (1 * nat 8 + nat 8) =
            slice (short_pixels @ replicate 2 0) (1 * nat 6) (1 * nat 6 + nat 6)
              @ replicate (nat 2) 0"
    by (metis one_less_numeral_iff semiring_norm(76))
  then have "slice (restride_to_bmp short_pixels 3 2) 8 16 = [0x07, 0x08, 0x09, 0x0A, 0, 0, 0, 0]"
    by (simp add: short_pixels_def slice_def replicate_numeral)
  with g n len show ?thesis by simp
qed

section \<open>Verification: the bitmap header\<close>

text \<open>The recursive encodings of the model are the reference encodings.\<close>

lemma upt_Suc_shift: "[0..<Suc n] = 0 # map Suc [0..<n]"
  by (simp only: map_Suc_upt upt_conv_Cons [OF zero_less_Suc])

lemma little_endian_value_eq: "little_endian_value bs = le_nat bs"
proof (induction bs)
  case Nil
  show ?case by (simp add: little_endian_value_def)
next
  case (Cons b bs)
  have "[0..<Suc (length bs)] = 0 # map Suc [0..<length bs]"
    by (rule upt_Suc_shift)
  then have "little_endian_value (b # bs) =
      unat b + sum_list (map (\<lambda>k. 256 * (unat (bs ! k) * 256 ^ k)) [0..<length bs])"
    by (simp add: little_endian_value_def comp_def mult_ac)
  also have "\<dots> = unat b + 256 * little_endian_value bs"
    by (simp only: sum_list_const_mult little_endian_value_def)
  finally show ?case by (simp add: Cons.IH)
qed

lemma little_endian_eq: "little_endian n v = le_bytes n v"
proof (induction n arbitrary: v)
  case 0
  show ?case by (simp add: little_endian_def)
next
  case (Suc n)
  have "[0..<Suc n] = 0 # map Suc [0..<n]"
    by (rule upt_Suc_shift)
  then have "little_endian (Suc n) v = of_nat (v mod 256) # little_endian n (v div 256)"
    by (simp add: little_endian_def comp_def div_mult2_eq)
  then show ?case by (simp add: Suc.IH)
qed

lemma le_bytes_4:
  "le_bytes 4 v = [of_nat (v mod 256), of_nat (v div 256 mod 256),
                   of_nat (v div 256 div 256 mod 256), of_nat (v div 256 div 256 div 256 mod 256)]"
proof -
  have "(4::nat) = Suc (Suc (Suc (Suc 0)))" by simp
  then have "le_bytes 4 v = le_bytes (Suc (Suc (Suc (Suc 0)))) v" by (simp only:)
  then show ?thesis by simp
qed

lemma le_bytes_2: "le_bytes 2 v = [of_nat (v mod 256), of_nat (v div 256 mod 256)]"
proof -
  have "(2::nat) = Suc (Suc 0)" by simp
  then have "le_bytes 2 v = le_bytes (Suc (Suc 0)) v" by (simp only:)
  then show ?thesis by simp
qed

lemmas pack_defs = pack_I_def pack_i_def pack_H_def append_piece_def le_bytes_4 le_bytes_2




lemma length_bitmap_header: "length (bitmap_header width height) = 66"
  by (simp add: bitmap_header_def little_endian_eq Let_def le_bytes_4 le_bytes_2)

lemma create_header_2x1: "create_bmp_header 2 1 = Inr header_2x1"
  by (simp add: create_bmp_header_def get_stride_info_def pack_defs header_2x1_def)

lemma length_header_2x1: "length header_2x1 = 66"
  by (simp add: header_2x1_def)

lemma sanitize_icon: "sanitize_filename ''icon:back/1.png'' = ''icon_back_1.png''"
  by (simp add: sanitize_filename_def replace_char_def isalnum_def strip_def isspace_def)


section \<open>Verification: searching a buffer\<close>

lemma find_at_None:
  "find_at sub xs i = None \<Longrightarrow> take (length sub) (drop k xs) \<noteq> sub"
proof (induction xs arbitrary: i k)
  case Nil
  then show ?case by (auto split: if_splits)
next
  case (Cons x xs)
  then have here: "take (length sub) (x # xs) \<noteq> sub" and rest: "find_at sub xs (Suc i) = None"
    by (auto split: if_splits)
  show ?case
  proof (cases k)
    case 0
    with here show ?thesis by simp
  next
    case (Suc j)
    with Cons.IH [OF rest, of j] show ?thesis by simp
  qed
qed

lemma find_at_Some:
  "find_at sub xs i = Some p \<Longrightarrow> sub \<noteq> [] \<Longrightarrow>
   i \<le> p \<and> p < i + length xs \<and> take (length sub) (drop (p - i) xs) = sub \<and>
   (\<forall>k < p - i. take (length sub) (drop k xs) \<noteq> sub)"
proof (induction xs arbitrary: i)
  case Nil
  then show ?case by simp
next
  case (Cons x xs)
  show ?case
  proof (cases "take (length sub) (x # xs) = sub")
    case True
    with Cons.prems show ?thesis by simp
  next
    case False
    with Cons.prems have rest: "find_at sub xs (Suc i) = Some p" by simp
    from Cons.IH [OF rest Cons.prems(2)]
    have ih: "Suc i \<le> p" "p < Suc i + length xs"
      "take (length sub) (drop (p - Suc i) xs) = sub"
      "\<forall>k < p - Suc i. take (length sub) (drop k xs) \<noteq> sub"
      by simp_all
    from ih(1) have pi: "p - i = Suc (p - Suc i)" by simp
    have "take (length sub) (drop k (x # xs)) \<noteq> sub" if "k < p - i" for k
    proof (cases k)
      case 0
      with False show ?thesis by simp
    next
      case (Suc j)
      with that pi have "j < p - Suc i" by simp
      with ih(4) Suc show ?thesis by simp
    qed
    with ih show ?thesis by (simp add: pi)
  qed
qed

text \<open>
  \<open>decode_raw_name\<close>, which searches the first null byte, slices and decodes with the
  ignoring error handler, is the reference decoder: it stops at the first null byte and drops
  every byte above \<open>0x7F\<close>.
\<close>

lemma find_null_decode:
  "(case find_at [0] xs i of
      None \<Rightarrow> decode_ascii_ignore xs
    | Some p \<Rightarrow> decode_ascii_ignore (take (p - i) xs)) = permissive_name xs"
proof (induction xs arbitrary: i)
  case Nil
  show ?case by (simp add: decode_ascii_ignore_def)
next
  case (Cons x xs)
  show ?case
  proof (cases "x = 0")
    case True
    then show ?thesis by (simp add: decode_ascii_ignore_def)
  next
    case False
    show ?thesis
    proof (cases "find_at [0] xs (Suc i)")
      case None
      with Cons.IH [of "Suc i"] False show ?thesis
        by (simp add: decode_ascii_ignore_def)
    next
      case (Some p)
      from find_at_Some [OF Some] have "Suc i \<le> p" by simp
      then have "p - i = Suc (p - Suc i)" by simp
      with Cons.IH [of "Suc i"] Some False show ?thesis
        by (simp add: decode_ascii_ignore_def)
    qed
  qed
qed

lemma decode_raw_name_eq: "decode_raw_name raw_bytes = permissive_name raw_bytes"
  using find_null_decode [of raw_bytes 0]
  by (simp add: decode_raw_name_def bytes_find_def slice_def Let_def split: option.splits)

lemma permissive_name_ascii:
  "c \<in> set (permissive_name bs) \<Longrightarrow> (of_char c :: nat) < 128 \<and> c \<noteq> CHR 0x00"
proof (induction bs)
  case Nil
  then show ?case by simp
next
  case (Cons b bs)
  show ?case
  proof (cases "b \<noteq> 0 \<and> b < 0x80 \<and> c = char_of (unat b)")
    case True
    then have lt: "unat b < 128"
      by (simp add: word_less_nat_alt)
    from True have nz: "unat b \<noteq> 0"
      by (simp add: unat_eq_0)
    from lt True have "(of_char c :: nat) = unat b"
      by simp
    with lt nz show ?thesis by auto
  next
    case False
    with Cons.prems have "c \<in> set (permissive_name bs)"
      by (auto split: if_splits)
    then show ?thesis by (rule Cons.IH)
  qed
qed

text \<open>The fields that the loop body reads at a match are those of the reference record.\<close>

lemma record_at_eq:
  "record_at data pos =
     \<lparr>e_meta_pos = pos,
      e_offset = le_nat (slice data (pos + 20) (pos + 24)),
      e_width = le_nat (slice data (pos + 24) (pos + 28)),
      e_height = le_nat (slice data (pos + 28) (pos + 32)),
      e_original_name = decode_raw_name (slice data (pos + 32) (pos + 96))\<rparr>"
  by (simp add: record_at_def slice_def little_endian_value_eq decode_raw_name_eq)

section \<open>Verification: the loop body\<close>

lemma prepare_resource_plain:
  assumes "\<not> (e_width entry > 0 \<and> e_height entry > 0 \<and>
              \<bar>raw_size - int (e_width entry) * int (e_height entry) * 2\<bar> < 4096)"
  shows "prepare_resource data i entry raw_size =
     Inr (\<lparr>m_id = i, original_firmware_name = e_original_name entry,
           original_offset = e_offset entry, original_raw_size = raw_size,
           m_width = e_width entry, m_height = e_height entry, is_image = False,
           m_transformations = \<lparr>byte_swap_applied = False, row_padding_bytes = 0,
                                  bmp_header_size = 0\<rparr>,
           saved_filename = []\<rparr>,
          slice data (e_offset entry) (nat (int (e_offset entry) + raw_size)),
          sanitize_filename (e_original_name entry))"
  using assms by (auto simp: prepare_resource_def Let_def)

lemma prepare_resource_image:
  assumes "e_width entry > 0 \<and> e_height entry > 0 \<and>
           \<bar>raw_size - int (e_width entry) * int (e_height entry) * 2\<bar> < 4096"
  shows "prepare_resource data i entry raw_size =
     (case create_bmp_header (e_width entry) (e_height entry) of
        Inl e \<Rightarrow> Inl e
      | Inr header \<Rightarrow>
          Inr (\<lparr>m_id = i, original_firmware_name = e_original_name entry,
                original_offset = e_offset entry, original_raw_size = raw_size,
                m_width = e_width entry, m_height = e_height entry, is_image = True,
                m_transformations = \<lparr>byte_swap_applied = True,
                                       row_padding_bytes = int (2 * (e_width entry mod 2)),
                                       bmp_header_size = length header\<rparr>,
                saved_filename = []\<rparr>,
               header @ restride_to_bmp
                 (pair_swap (slice data (e_offset entry) (nat (int (e_offset entry) + raw_size))))
                 (e_width entry) (e_height entry),
               if \<not> endswith (lower (sanitize_filename (e_original_name entry))) ''.bmp''
               then sanitize_filename (e_original_name entry) @ ''.bmp''
               else sanitize_filename (e_original_name entry)))"
  using assms
  by (simp add: prepare_resource_def Let_def swap_bytes_16bit_eq get_stride_info_eq
      split: sum.splits)

text \<open>The name of a bitmap output ends in \<open>.bmp\<close> in some letter case, so it never names a
  directory.\<close>

lemma bitmap_name_is_file:
  "open_output (if \<not> endswith (lower s) ''.bmp'' then s @ ''.bmp'' else s) = Inr ()"
proof (cases "endswith (lower s) ''.bmp''")
  case True
  then have "4 \<le> length s"
    by (simp add: endswith_def lower_def)
  then have "s \<noteq> [] \<and> s \<noteq> ''.'' \<and> s \<noteq> ''..''"
    by auto
  with True show ?thesis by (simp add: open_output_def)
next
  case False
  have "4 \<le> length (s @ ''.bmp'')" by simp
  then have "s @ ''.bmp'' \<noteq> [] \<and> s @ ''.bmp'' \<noteq> ''.'' \<and> s @ ''.bmp'' \<noteq> ''..''"
    by (metis One_nat_def Suc_1 length_Cons list.size(3) not_numeral_le_zero
        numeral_le_one_iff semiring_norm(69) numeral_le_iff semiring_norm(71,72) length_0_conv)
  with False show ?thesis by (simp add: open_output_def)
qed


lemma emit_resource_plain:
  assumes "\<not> (e_width entry > 0 \<and> e_height entry > 0 \<and>
              \<bar>raw_size - int (e_width entry) * int (e_height entry) * 2\<bar> < 4096)"
  shows "sanitize_filename (e_original_name entry) \<in> {[], ''.'', ''..''} \<Longrightarrow>
           emit_resource data i entry raw_size = Inl IsADirectoryError"
    and "sanitize_filename (e_original_name entry) \<notin> {[], ''.'', ''..''} \<Longrightarrow>
           \<exists>m. emit_resource data i entry raw_size =
                  Inr (m, slice data (e_offset entry) (nat (int (e_offset entry) + raw_size))) \<and>
                \<not> is_image m"
  by (auto simp: emit_resource_def prepare_resource_plain [OF assms] open_output_def)

lemma emit_resource_image:
  assumes "e_width entry > 0 \<and> e_height entry > 0 \<and>
           \<bar>raw_size - int (e_width entry) * int (e_height entry) * 2\<bar> < 4096"
  shows "create_bmp_header (e_width entry) (e_height entry) = Inr header \<Longrightarrow>
           \<exists>m. emit_resource data i entry raw_size =
                  Inr (m, header @ restride_to_bmp
                        (pair_swap (slice data (e_offset entry) (nat (int (e_offset entry) + raw_size))))
                        (e_width entry) (e_height entry)) \<and> is_image m"
    and "create_bmp_header (e_width entry) (e_height entry) = Inl e \<Longrightarrow>
           emit_resource data i entry raw_size = Inl e"
  by (simp_all add: emit_resource_def prepare_resource_image [OF assms] bitmap_name_is_file)


lemma emit_resource_fields:
  assumes "emit_resource data i entry raw_size = Inr (m, out)"
  shows "m_id m = i \<and> original_offset m = e_offset entry \<and> original_raw_size m = raw_size \<and>
   m_width m = e_width entry \<and> m_height m = e_height entry \<and>
   original_firmware_name m = e_original_name entry"
proof (cases "e_width entry > 0 \<and> e_height entry > 0 \<and>
                  \<bar>raw_size - int (e_width entry) * int (e_height entry) * 2\<bar> < 4096")
  case True
  with assms show ?thesis
    by (auto simp: emit_resource_def prepare_resource_image [OF True]
        split: sum.splits)
next
  case False
  with assms show ?thesis
    by (auto simp: emit_resource_def prepare_resource_plain [OF False]
        split: sum.splits)
qed

lemma saved_filename_emit:
  assumes "emit_resource data i entry raw_size = Inr (m, out)"
  shows "original_firmware_name m = e_original_name entry \<and>
   saved_filename m =
     (if is_image m \<and> \<not> endswith (lower (sanitize_filename (e_original_name entry))) ''.bmp''
      then sanitize_filename (e_original_name entry) @ ''.bmp''
      else sanitize_filename (e_original_name entry))"
proof (cases "e_width entry > 0 \<and> e_height entry > 0 \<and>
                  \<bar>raw_size - int (e_width entry) * int (e_height entry) * 2\<bar> < 4096")
  case True
  with assms show ?thesis
    by (auto simp: emit_resource_def prepare_resource_image [OF True]
        split: sum.splits)
next
  case False
  with assms show ?thesis
    by (auto simp: emit_resource_def prepare_resource_plain [OF False]
        split: sum.splits)
qed

lemma emit_icon:
  "emit_resource icon_data 0 icon_entry 4 =
     Inr (\<lparr>m_id = 0, original_firmware_name = ''icon:back/1.png'', original_offset = 0,
           original_raw_size = 4, m_width = 2, m_height = 1, is_image = True,
           m_transformations = \<lparr>byte_swap_applied = True, row_padding_bytes = 0,
                                  bmp_header_size = 66\<rparr>,
           saved_filename = ''icon_back_1.png.bmp''\<rparr>,
          header_2x1 @ [0x34, 0x12, 0x78, 0x56])"
proof -
  have img: "e_width icon_entry > 0 \<and> e_height icon_entry > 0 \<and>
      \<bar>4 - int (e_width icon_entry) * int (e_height icon_entry) * 2\<bar> < 4096"
    by (simp add: icon_entry_def)
  have hd: "create_bmp_header (e_width icon_entry) (e_height icon_entry) = Inr header_2x1"
    using create_header_2x1 by (simp add: icon_entry_def)
  have px: "restride_to_bmp (pair_swap (slice icon_data (e_offset icon_entry)
               (nat (int (e_offset icon_entry) + 4)))) (e_width icon_entry) (e_height icon_entry) =
             [0x34, 0x12, 0x78, 0x56]"
    by (simp add: icon_entry_def icon_data_def slice_def restride_to_bmp_def get_stride_info_def)
  have name: "sanitize_filename (e_original_name icon_entry) = ''icon_back_1.png''"
    by (simp add: icon_entry_def sanitize_icon)
  have sfx: "\<not> endswith (lower ''icon_back_1.png'') ''.bmp''"
    by (simp add: endswith_def lower_def)
  show ?thesis
    unfolding emit_resource_def prepare_resource_image [OF img] hd px name
    by (simp add: sfx open_output_def length_header_2x1 icon_entry_def)
qed

section \<open>Verification: file names\<close>

lemma isspace_kept_char:
  "isalnum c \<or> c \<in> set ''._-(), '' \<Longrightarrow> isspace c \<longleftrightarrow> c = CHR '' ''"
  by (auto simp: isalnum_def isspace_def Let_def)

lemma isspace_underscore: "isspace (CHR ''_'') \<longleftrightarrow> CHR ''_'' = CHR '' ''"
  by (simp add: isspace_def)

lemma strip_spaces_only:
  assumes "\<forall>c \<in> set s. isspace c \<longleftrightarrow> c = CHR '' ''"
  shows "strip s = rev (dropWhile (\<lambda>c. c = CHR '' '') (rev (dropWhile (\<lambda>c. c = CHR '' '') s)))"
proof -
  have front: "dropWhile isspace s = dropWhile (\<lambda>c. c = CHR '' '') s"
    using assms by (intro dropWhile_cong) auto
  have "set (dropWhile (\<lambda>c. c = CHR '' '') s) \<subseteq> set s"
    by (rule set_dropWhileD [THEN subsetI])
  with assms have "\<forall>c \<in> set (rev (dropWhile (\<lambda>c. c = CHR '' '') s)). isspace c \<longleftrightarrow> c = CHR '' ''"
    by auto
  then have "dropWhile isspace (rev (dropWhile (\<lambda>c. c = CHR '' '') s)) =
             dropWhile (\<lambda>c. c = CHR '' '') (rev (dropWhile (\<lambda>c. c = CHR '' '') s))"
    by (intro dropWhile_cong) auto
  with front show ?thesis by (simp add: strip_def)
qed

lemma separators_replaced:
  "map (\<lambda>c. if isalnum c \<or> c \<in> set ''._-(), '' then c else CHR ''_'')
     (replace_char (CHR 0x5C) (CHR ''_'') (replace_char (CHR ''/'') (CHR ''_'') s)) =
   map (\<lambda>c. if isalnum c \<or> c \<in> set ''._-(), '' then c else CHR ''_'') s"
  by (induction s) (auto simp: replace_char_def isalnum_def)

lemma sanitize_filename_eq:
  "sanitize_filename original_name =
     rev (dropWhile (\<lambda>c. c = CHR '' '') (rev (dropWhile (\<lambda>c. c = CHR '' '')
       (map (\<lambda>c. if isalnum c \<or> c \<in> set ''._-(), '' then c else CHR ''_'') original_name))))"
proof -
  have "\<forall>c \<in> set (map (\<lambda>c. if isalnum c \<or> c \<in> set ''._-(), '' then c else CHR ''_'') original_name).
          isspace c \<longleftrightarrow> c = CHR '' ''"
    using isspace_kept_char isspace_underscore by auto
  from strip_spaces_only [OF this] show ?thesis
    by (simp only: sanitize_filename_def Let_def separators_replaced)
qed

text \<open>Every decoded name is ASCII text without null characters, which is the text the
  string functions above are modelled on.\<close>

lemma decode_raw_name_ascii:
  "c \<in> set (decode_raw_name raw_bytes) \<Longrightarrow> (of_char c :: nat) < 128 \<and> c \<noteq> CHR 0x00"
  unfolding decode_raw_name_eq by (rule permissive_name_ascii)

text \<open>
  C8 (as amended). The sanitized name is the original name with every character kept
  that is alphanumeric or one of \<open>._-(),\<close> and the space, every other character (the
  path separators \<open>/\<close> and \<open>\\\<close> among them) replaced by \<open>_\<close>, and then the leading and
  trailing spaces removed. A bitmap output gets \<open>.bmp\<close> appended unless the sanitized name
  already ends in \<open>.bmp\<close> in any letter case; other outputs keep the sanitized name.
  \<open>icon:back/1.png\<close> becomes \<open>icon_back_1.png\<close>.
\<close>

theorem sanitized_output_name:
  "sanitize_filename original_name =
     rev (dropWhile (\<lambda>c. c = CHR '' '') (rev (dropWhile (\<lambda>c. c = CHR '' '')
       (map (\<lambda>c. if isalnum c \<or> c \<in> set ''._-(), '' then c else CHR ''_'') original_name)))) \<and>
   (\<forall>m out. emit_resource data i entry raw_size = Inr (m, out) \<longrightarrow>
      saved_filename m =
        (if is_image m \<and> \<not> endswith (lower (sanitize_filename (e_original_name entry))) ''.bmp''
         then sanitize_filename (e_original_name entry) @ ''.bmp''
         else sanitize_filename (e_original_name entry))) \<and>
   sanitize_filename ''icon:back/1.png'' = ''icon_back_1.png''"
proof (intro conjI allI impI)
  show "sanitize_filename original_name =
     rev (dropWhile (\<lambda>c. c = CHR '' '') (rev (dropWhile (\<lambda>c. c = CHR '' '')
       (map (\<lambda>c. if isalnum c \<or> c \<in> set ''._-(), '' then c else CHR ''_'') original_name))))"
    by (rule sanitize_filename_eq)
next
  fix m out
  assume "emit_resource data i entry raw_size = Inr (m, out)"
  then show "saved_filename m =
        (if is_image m \<and> \<not> endswith (lower (sanitize_filename (e_original_name entry))) ''.bmp''
         then sanitize_filename (e_original_name entry) @ ''.bmp''
         else sanitize_filename (e_original_name entry))"
    by (rule saved_filename_emit [THEN conjunct2])
next
  show "sanitize_filename ''icon:back/1.png'' = ''icon_back_1.png''"
    by (rule sanitize_icon)
qed

theorem sanitized_output_name_witness:
  "\<exists>m out. emit_resource icon_data 0 icon_entry 4 = Inr (m, out) \<and> is_image m \<and>
     \<not> endswith (lower (sanitize_filename (e_original_name icon_entry))) ''.bmp'' \<and>
     saved_filename m = ''icon_back_1.png.bmp''"
proof -
  obtain m out where emit: "emit_resource icon_data 0 icon_entry 4 = Inr (m, out)"
    and img: "is_image m"
    using emit_icon by simp
  have name: "sanitize_filename (e_original_name icon_entry) = ''icon_back_1.png''"
    by (simp add: icon_entry_def sanitize_icon)
  have sfx: "\<not> endswith (lower (sanitize_filename (e_original_name icon_entry))) ''.bmp''"
    by (simp add: name endswith_def lower_def)
  from sanitized_output_name [of "e_original_name icon_entry" icon_data 0 icon_entry 4] emit
  have "saved_filename m =
        (if is_image m \<and> \<not> endswith (lower (sanitize_filename (e_original_name icon_entry))) ''.bmp''
         then sanitize_filename (e_original_name icon_entry) @ ''.bmp''
         else sanitize_filename (e_original_name icon_entry))"
    by blast
  with img sfx have "saved_filename m = ''icon_back_1.png.bmp''"
    by (simp add: name)
  with emit img sfx show ?thesis by blast
qed

text \<open>
  C8 as stated fails on a name with a leading space: character by character the name
  \<open>" a"\<close> is kept as it is, but \<open>sanitize_filename\<close> returns \<open>"a"\<close>.
\<close>

theorem leading_space_counterexample:
  "sanitize_filename '' a'' = ''a'' \<and>
   map (\<lambda>c. if isalnum c \<or> c \<in> set ''._-(), '' then c else CHR ''_'')
     (replace_char (CHR 0x5C) (CHR ''_'') (replace_char (CHR ''/'') (CHR ''_'') '' a'')) = '' a''"
  by (simp add: sanitize_filename_def replace_char_def isalnum_def strip_def isspace_def)

section \<open>Verification: the resource table scanner\<close>

lemma length_MAGIC_SIG: "length MAGIC_SIG = 5"
  by (simp add: MAGIC_SIG_def)

lemma bytes_find_None:
  assumes "bytes_find data MAGIC_SIG start = None" and "start \<le> q"
  shows "slice data q (q + 5) \<noteq> MAGIC_SIG"
proof (cases "start \<le> length data")
  case True
  with assms(1) have "find_at MAGIC_SIG (drop start data) start = None"
    by (simp add: bytes_find_def)
  from find_at_None [OF this, of "q - start"] assms(2) show ?thesis
    by (simp add: slice_def length_MAGIC_SIG)
next
  case False
  with assms(2) have "drop q data = []" by simp
  then show ?thesis by (simp add: slice_def MAGIC_SIG_def)
qed

lemma bytes_find_Some:
  assumes "bytes_find data MAGIC_SIG start = Some pos"
  shows "start \<le> pos \<and> pos < length data \<and> slice data pos (pos + 5) = MAGIC_SIG \<and>
         (\<forall>q. start \<le> q \<and> q < pos \<longrightarrow> slice data q (q + 5) \<noteq> MAGIC_SIG)"
proof -
  from assms have le: "start \<le> length data"
    and found: "find_at MAGIC_SIG (drop start data) start = Some pos"
    by (auto simp: bytes_find_def split: if_splits)
  have ne: "MAGIC_SIG \<noteq> []" by (simp add: MAGIC_SIG_def)
  from find_at_Some [OF found ne]
  have f1: "start \<le> pos" and f2: "pos < start + length (drop start data)"
    and f3: "take (length MAGIC_SIG) (drop (pos - start) (drop start data)) = MAGIC_SIG"
    and f4: "\<forall>k < pos - start. take (length MAGIC_SIG) (drop k (drop start data)) \<noteq> MAGIC_SIG"
    by blast+
  from f1 f2 le have lt: "pos < length data" by simp
  from f1 have "pos - start + start = pos" by simp
  with f3 have m: "slice data pos (pos + 5) = MAGIC_SIG"
    by (simp add: slice_def length_MAGIC_SIG)
  have "slice data q (q + 5) \<noteq> MAGIC_SIG" if "start \<le> q" "q < pos" for q
  proof -
    from that have "q - start < pos - start" by simp
    with f4 have "take (length MAGIC_SIG) (drop (q - start) (drop start data)) \<noteq> MAGIC_SIG"
      by blast
    with that(1) show ?thesis by (simp add: slice_def length_MAGIC_SIG)
  qed
  with f1 lt m show ?thesis by blast
qed


lemma unpack_I_at:
  "b = a + 4 \<Longrightarrow> unpack_I (slice data a b) =
     (if b \<le> length data then Inr (le_nat (slice data a b)) else Inl StructError)"
  by (auto simp: unpack_I_def length_slice)

lemma name_beyond_end:
  "length data \<le> pos + 32 \<Longrightarrow> decode_raw_name (slice data (pos + 32) (pos + 96)) = []"
  by (simp add: slice_def decode_raw_name_eq)

lemma try_entry_eq:
  "try_entry data pos entries =
     entries @ (if e_offset (record_at data pos) < length data \<and>
                   e_original_name (record_at data pos) \<noteq> []
                then [record_at data pos] else [])"
proof (cases "pos + 32 \<le> length data")
  case True
  then have "read_record data pos =
      Inr (e_offset (record_at data pos), e_width (record_at data pos),
           e_height (record_at data pos), e_original_name (record_at data pos))"
    by (simp add: read_record_def unpack_I_at record_at_eq Let_def)
  then show ?thesis
    by (simp add: try_entry_def Let_def record_at_eq)
next
  case False
  then have "read_record data pos = Inl StructError"
    by (simp add: read_record_def unpack_I_at)
  moreover from False have "e_original_name (record_at data pos) = []"
    by (simp add: record_at_eq name_beyond_end)
  ultimately show ?thesis
    by (simp add: try_entry_def)
qed

lemma scan_loop_eq:
  "start_pos \<le> length data \<Longrightarrow>
   scan_loop data start_pos entries =
     entries @ map (record_at data)
       (filter (\<lambda>pos. slice data pos (pos + 5) = MAGIC_SIG \<and>
                       e_offset (record_at data pos) < length data \<and>
                       e_original_name (record_at data pos) \<noteq> [])
               [start_pos..<length data])"
proof (induction data start_pos entries rule: scan_loop.induct)
  case (1 data start_pos entries)
  show ?case
  proof (cases "bytes_find data MAGIC_SIG start_pos")
    case None
    then have "\<forall>q \<in> set [start_pos..<length data]. slice data q (q + 5) \<noteq> MAGIC_SIG"
      by (auto dest: bytes_find_None)
    then have "filter (\<lambda>pos. slice data pos (pos + 5) = MAGIC_SIG \<and>
                       e_offset (record_at data pos) < length data \<and>
                       e_original_name (record_at data pos) \<noteq> [])
               [start_pos..<length data] = []"
      by (simp add: filter_empty_conv)
    with None show ?thesis
      by (simp add: scan_loop.simps [of data start_pos])
  next
    case (Some pos)
    from bytes_find_Some [OF Some]
    have le: "start_pos \<le> pos" and lt: "pos < length data"
      and m: "slice data pos (pos + 5) = MAGIC_SIG"
      and before: "\<forall>q. start_pos \<le> q \<and> q < pos \<longrightarrow> slice data q (q + 5) \<noteq> MAGIC_SIG"
      by blast+
    from lt have "length data = pos + (length data - pos)" by simp
    with upt_add_eq_append [OF le, of "length data - pos"]
    have "[start_pos..<length data] = [start_pos..<pos] @ [pos..<length data]"
      by simp
    with lt have split: "[start_pos..<length data] =
        [start_pos..<pos] @ pos # [pos + 1..<length data]"
      by (simp add: upt_conv_Cons)
    from before have none: "filter (\<lambda>pos. slice data pos (pos + 5) = MAGIC_SIG \<and>
                       e_offset (record_at data pos) < length data \<and>
                       e_original_name (record_at data pos) \<noteq> [])
               [start_pos..<pos] = []"
      by (simp add: filter_empty_conv)
    from lt have "pos + 1 \<le> length data" by simp
    from "1.IH" [OF Some this] none m show ?thesis
      by (simp add: scan_loop.simps [of data start_pos] Some split try_entry_eq)
  qed
qed



lemma find_fs_image:
  "bytes_find fs_image MAGIC_SIG 0 = Some 4"
  "bytes_find fs_image MAGIC_SIG 5 = Some 40"
  "bytes_find fs_image MAGIC_SIG 41 = None"
  by (simp_all add: bytes_find_def fs_image_def MAGIC_SIG_def)

lemma try_fs_image:
  "try_entry fs_image 4 [] =
     [\<lparr>e_meta_pos = 4, e_offset = 0, e_width = 2, e_height = 1, e_original_name = ''ab''\<rparr>]"
  "try_entry fs_image 40 entries = entries"
  by (simp_all add: try_entry_eq record_at_eq fs_image_def slice_def decode_raw_name_eq
      char_of_def bit_Suc_0_iff)

lemma scan_fs_image:
  "scan_loop fs_image 0 [] =
     [\<lparr>e_meta_pos = 4, e_offset = 0, e_width = 2, e_height = 1, e_original_name = ''ab''\<rparr>]"
  by (simp add: scan_loop.simps [of fs_image 0] scan_loop.simps [of fs_image 5]
      scan_loop.simps [of fs_image 41] find_fs_image try_fs_image)





section \<open>Verification: the resource loop\<close>

lemma create_bmp_header_ok:
  assumes "get_stride_info width = (src_stride, dst_stride, padding)"
    and "66 + dst_stride * int height < 2 ^ 32"
    and "int width < 2 ^ 31" and "int height \<le> 2 ^ 31"
  shows "\<exists>header. create_bmp_header width height = Inr header \<and> length header = 66"
proof -
  from assms(1) have "0 \<le> dst_stride"
    by (auto simp: get_stride_info_eq)
  then have "0 \<le> dst_stride * int height" by simp
  with assms show ?thesis
    by (simp add: create_bmp_header_def pack_defs Let_def)
qed


lemma min_list_Min: "xs \<noteq> [] \<Longrightarrow> min_list xs = Min (set xs)"
proof (induction xs)
  case Nil
  then show ?case by simp
next
  case (Cons x xs)
  show ?case
  proof (cases xs)
    case Nil
    then show ?thesis by simp
  next
    case (Cons y ys)
    with Cons.IH have "min_list xs = Min (set xs)" by simp
    with Cons show ?thesis by simp
  qed
qed

lemma data_end_limit_sorted:
  "scanned \<noteq> [] \<Longrightarrow>
   data_end_limit (sort_key e_offset scanned) file_size = Min (e_meta_pos ` set scanned)"
proof -
  assume ne: "scanned \<noteq> []"
  then have "sort_key e_offset scanned \<noteq> []"
    by (metis length_0_conv length_sort)
  then have "data_end_limit (sort_key e_offset scanned) file_size =
      Min (set (map e_meta_pos (sort_key e_offset scanned)))"
    by (simp add: data_end_limit_def min_list_Min)
  then show ?thesis by simp
qed

lemma process_loop_summary:
  "process_loop data entries limit file_size is acc = Inr manifest \<Longrightarrow>
   map (\<lambda>(m, out). (m_id m, original_offset m, original_raw_size m)) manifest =
     map (\<lambda>(m, out). (m_id m, original_offset m, original_raw_size m)) acc @
     map (\<lambda>i. (i, e_offset (entries ! i), raw_size_at entries limit file_size i))
       (filter (\<lambda>i. 0 < raw_size_at entries limit file_size i) is)"
proof (induction "is" arbitrary: acc)
  case Nil
  then show ?case by simp
next
  case (Cons i rest)
  show ?case
  proof (cases "raw_size_at entries limit file_size i \<le> 0")
    case True
    with Cons.prems have "process_loop data entries limit file_size rest acc = Inr manifest"
      by (simp add: Let_def)
    from Cons.IH [OF this] True show ?thesis by simp
  next
    case False
    with Cons.prems obtain m out where
      emit: "emit_resource data i (entries ! i) (raw_size_at entries limit file_size i) = Inr (m, out)"
      and rest: "process_loop data entries limit file_size rest (acc @ [(m, out)]) = Inr manifest"
      by (auto simp: Let_def split: sum.splits)
    from emit_resource_fields [OF emit] Cons.IH [OF rest] False show ?thesis
      by simp
  qed
qed

text \<open>
  The loop returns a manifest when every bitmap header can be built and no sanitized name
  is empty, \<open>.\<close> or \<open>..\<close>, the names for which opening the output file raises.
\<close>

lemma process_loop_total:
  "(\<forall>i \<in> set is.
      (\<exists>header. create_bmp_header (e_width (entries ! i)) (e_height (entries ! i)) = Inr header) \<and>
      sanitize_filename (e_original_name (entries ! i)) \<notin> {[], ''.'', ''..''}) \<Longrightarrow>
   \<exists>manifest. process_loop data entries limit file_size is acc = Inr manifest"
proof (induction "is" arbitrary: acc)
  case Nil
  show ?case by simp
next
  case (Cons i rest)
  then obtain header where
    hd: "create_bmp_header (e_width (entries ! i)) (e_height (entries ! i)) = Inr header"
    and name: "sanitize_filename (e_original_name (entries ! i)) \<notin> {[], ''.'', ''..''}"
    by auto
  have "\<exists>r. emit_resource data i (entries ! i) rs = Inr r" for rs
    using emit_resource_plain(2) [of "entries ! i" rs, OF _ name, of data i]
      emit_resource_image(1) [of "entries ! i" rs header data i, OF _ hd]
    by blast
  then obtain r where
    "emit_resource data i (entries ! i) (raw_size_at entries limit file_size i) = Inr r"
    by blast
  moreover from Cons have
    "\<exists>manifest. process_loop data entries limit file_size rest acc' = Inr manifest" for acc'
    by simp
  ultimately show ?case by (simp add: Let_def)
qed

lemma process_entries_total:
  assumes "\<forall>e \<in> set scanned.
      (\<exists>header. create_bmp_header (e_width e) (e_height e) = Inr header) \<and>
      sanitize_filename (e_original_name e) \<notin> {[], ''.'', ''..''}"
  shows "\<exists>manifest. process_entries data scanned = Inr manifest"
proof -
  have "\<forall>i \<in> set [0..<length (sort_key e_offset scanned)].
      (\<exists>header. create_bmp_header (e_width (sort_key e_offset scanned ! i))
        (e_height (sort_key e_offset scanned ! i)) = Inr header) \<and>
      sanitize_filename (e_original_name (sort_key e_offset scanned ! i)) \<notin> {[], ''.'', ''..''}"
  proof
    fix i assume "i \<in> set [0..<length (sort_key e_offset scanned)]"
    then have "i < length (sort_key e_offset scanned)"
      by simp
    then have "sort_key e_offset scanned ! i \<in> set (sort_key e_offset scanned)"
      by (rule nth_mem)
    then have "sort_key e_offset scanned ! i \<in> set scanned" by simp
    with assms show "(\<exists>header. create_bmp_header (e_width (sort_key e_offset scanned ! i))
        (e_height (sort_key e_offset scanned ! i)) = Inr header) \<and>
      sanitize_filename (e_original_name (sort_key e_offset scanned ! i)) \<notin> {[], ''.'', ''..''}"
      by blast
  qed
  from process_loop_total [OF this] show ?thesis
    by (simp add: process_entries_def Let_def)
qed

lemma raw_size_at_inferred:
  "i < length entries \<Longrightarrow>
   raw_size_at entries limit file_size i = inferred_size entries limit file_size i"
proof (cases "i + 1 < length entries")
  case True
  then show ?thesis by (simp add: raw_size_at_def inferred_size_def Let_def)
next
  case False
  assume "i < length entries"
  with False have i: "i = length entries - 1" and ne: "entries \<noteq> []" by auto
  then have "entries ! i = last entries" by (simp add: last_conv_nth)
  with False show ?thesis
    by (auto simp: raw_size_at_def inferred_size_def Let_def)
qed

lemma process_entries_summary:
  assumes "process_entries data scanned = Inr manifest"
  shows "map (\<lambda>(m, out). (m_id m, original_offset m, original_raw_size m)) manifest =
     map (\<lambda>i. (i, e_offset (sort_key e_offset scanned ! i),
                inferred_size (sort_key e_offset scanned)
                  (data_end_limit (sort_key e_offset scanned) (length data)) (length data) i))
       (filter (\<lambda>i. 0 < inferred_size (sort_key e_offset scanned)
                  (data_end_limit (sort_key e_offset scanned) (length data)) (length data) i)
          [0..<length (sort_key e_offset scanned)])"
proof -
  let ?entries = "sort_key e_offset scanned"
  let ?limit = "data_end_limit ?entries (length data)"
  from assms have "process_loop data ?entries ?limit (length data) [0..<length ?entries] [] =
      Inr manifest"
    by (simp add: process_entries_def Let_def)
  from process_loop_summary [OF this]
  have "map (\<lambda>(m, out). (m_id m, original_offset m, original_raw_size m)) manifest =
     map (\<lambda>i. (i, e_offset (?entries ! i), raw_size_at ?entries ?limit (length data) i))
       (filter (\<lambda>i. 0 < raw_size_at ?entries ?limit (length data) i) [0..<length ?entries])"
    by simp
  also have "filter (\<lambda>i. 0 < raw_size_at ?entries ?limit (length data) i) [0..<length ?entries] =
      filter (\<lambda>i. 0 < inferred_size ?entries ?limit (length data) i) [0..<length ?entries]"
    by (rule filter_cong) (simp_all add: raw_size_at_inferred del: length_sort)
  also have "map (\<lambda>i. (i, e_offset (?entries ! i), raw_size_at ?entries ?limit (length data) i))
       (filter (\<lambda>i. 0 < inferred_size ?entries ?limit (length data) i) [0..<length ?entries]) =
     map (\<lambda>i. (i, e_offset (?entries ! i), inferred_size ?entries ?limit (length data) i))
       (filter (\<lambda>i. 0 < inferred_size ?entries ?limit (length data) i) [0..<length ?entries])"
    by (rule map_cong) (simp_all add: raw_size_at_inferred del: length_sort)
  finally show ?thesis .
qed

text \<open>
  C3. For every non-empty list of scanned descriptors on which the run completes, the
  loop works on the descriptors sorted by data offset (the same descriptors, in
  ascending order of offset), and the manifest holds, in order, exactly the indices \<open>i\<close>
  of the sorted list whose inferred size is positive, each with the offset of entry
  \<open>i\<close> and that size: \<open>offset[i+1] - offset[i]\<close> before the last entry, and for the last
  entry the least metadata position minus its offset, or the image length minus its
  offset when that difference is negative. Entries whose size is zero or negative are
  dropped.
\<close>

theorem boundary_inference:
  assumes "process_entries data scanned = Inr manifest" and "scanned \<noteq> []"
    and "entries = sort_key e_offset scanned"
    and "meta_start = Min (e_meta_pos ` set scanned)"
  shows "sorted (map e_offset entries) \<and> mset entries = mset scanned \<and>
     map (\<lambda>(m, out). (m_id m, original_offset m, original_raw_size m)) manifest =
       map (\<lambda>i. (i, e_offset (entries ! i), inferred_size entries meta_start (length data) i))
         (filter (\<lambda>i. 0 < inferred_size entries meta_start (length data) i)
            [0..<length entries])"
proof -
  have "sorted (map e_offset entries)" and "mset entries = mset scanned"
    by (simp_all add: assms(3))
  moreover from data_end_limit_sorted [OF assms(2)]
  have "data_end_limit (sort_key e_offset scanned) (length data) = meta_start"
    by (simp add: assms(4))
  with process_entries_summary [OF assms(1)]
  have "map (\<lambda>(m, out). (m_id m, original_offset m, original_raw_size m)) manifest =
       map (\<lambda>i. (i, e_offset (entries ! i), inferred_size entries meta_start (length data) i))
         (filter (\<lambda>i. 0 < inferred_size entries meta_start (length data) i)
            [0..<length entries])"
    by (simp only: assms(3))
  ultimately show ?thesis by blast
qed

lemma create_header_0x0: "\<exists>header. create_bmp_header 0 0 = Inr header"
proof -
  have "get_stride_info 0 = (0, 0, 0)"
    by (simp add: get_stride_info_def)
  from create_bmp_header_ok [OF this, of 0] show ?thesis
    by auto
qed

lemma plain_names:
  "sanitize_filename ''a'' = ''a''" "sanitize_filename ''b'' = ''b''"
  "sanitize_filename ''c'' = ''c''" "sanitize_filename ''x'' = ''x''"
  "sanitize_filename ''y'' = ''y''" "sanitize_filename ''z'' = ''z''"
  "sanitize_filename ''sq'' = ''sq''" "sanitize_filename '' '' = []"
  by (simp_all add: sanitize_filename_def replace_char_def isalnum_def strip_def isspace_def)

lemma upt_3: "[0..<3] = [0, 1, 2]"
  by (simp add: upt_rec)

lemma boundary_entries_sorted:
  "sort_key e_offset boundary_entries =
     [\<lparr>e_meta_pos = 796, e_offset = 100, e_width = 0, e_height = 0, e_original_name = ''a''\<rparr>,
      \<lparr>e_meta_pos = 700, e_offset = 250, e_width = 0, e_height = 0, e_original_name = ''b''\<rparr>,
      \<lparr>e_meta_pos = 892, e_offset = 600, e_width = 0, e_height = 0, e_original_name = ''c''\<rparr>]"
  by (simp add: boundary_entries_def)

text \<open>Descriptors at offsets 100, 250 and 600 with the metadata region starting at 700
  get the sizes 150, 350 and 100.\<close>

theorem boundary_inference_witness:
  "boundary_entries \<noteq> [] \<and> Min (e_meta_pos ` set boundary_entries) = 700 \<and>
   map e_offset (sort_key e_offset boundary_entries) = [100, 250, 600] \<and>
   (\<exists>manifest. process_entries boundary_data boundary_entries = Inr manifest \<and>
      map (\<lambda>(m, out). (m_id m, original_offset m, original_raw_size m)) manifest =
        [(0, 100, 150), (1, 250, 350), (2, 600, 100)])"
proof -
  have ne: "boundary_entries \<noteq> []"
    by (simp add: boundary_entries_def)
  have lim: "Min (e_meta_pos ` set boundary_entries) = 700"
    by (simp add: boundary_entries_def)
  have "\<forall>e \<in> set boundary_entries.
      (\<exists>header. create_bmp_header (e_width e) (e_height e) = Inr header) \<and>
      sanitize_filename (e_original_name e) \<notin> {[], ''.'', ''..''}"
    by (simp add: boundary_entries_def create_header_0x0 plain_names)
  from process_entries_total [OF this] obtain manifest where
    run: "process_entries boundary_data boundary_entries = Inr manifest"
    by blast
  from boundary_inference [OF run ne refl lim [symmetric]]
  have "map (\<lambda>(m, out). (m_id m, original_offset m, original_raw_size m)) manifest =
       map (\<lambda>i. (i, e_offset (sort_key e_offset boundary_entries ! i),
                  inferred_size (sort_key e_offset boundary_entries) 700 (length boundary_data) i))
         (filter (\<lambda>i. 0 < inferred_size (sort_key e_offset boundary_entries) 700
                          (length boundary_data) i)
            [0..<length (sort_key e_offset boundary_entries)])"
    by blast
  then have "map (\<lambda>(m, out). (m_id m, original_offset m, original_raw_size m)) manifest =
        [(0, 100, 150), (1, 250, 350), (2, 600, 100)]"
    by (simp add: boundary_entries_sorted inferred_size_def upt_3 boundary_data_def)
  with ne lim run show ?thesis
    by (simp add: boundary_entries_sorted)
qed

lemma sorted_map_nth:
  assumes "sorted (map f xs)" and "sorted_wrt (<) is" and "\<forall>i \<in> set is. i < length xs"
  shows "sorted (map (\<lambda>i. f (xs ! i)) is)"
proof -
  have "f (xs ! i) \<le> f (xs ! j)" if "i \<in> set is" "j \<in> set is" "i < j" for i j
  proof -
    from that assms(3) have "j < length (map f xs)" by simp
    with sorted_nth_mono [OF assms(1), of i j] that(3) have "map f xs ! i \<le> map f xs ! j"
      by simp
    with that assms(3) show ?thesis by simp
  qed
  then have "sorted_wrt (\<lambda>i j. f (xs ! i) \<le> f (xs ! j)) is"
    using assms(2) by (auto intro: sorted_wrt_mono_rel [of "is" "(<)"])
  then show ?thesis by (simp add: sorted_wrt_map)
qed

text \<open>
  C10. Whenever the run completes, the manifest records are in non-decreasing order of
  \<open>original_offset\<close> and in strictly increasing order of \<open>id\<close>, and the \<open>id\<close> of a record
  is the position of its descriptor in the list sorted by offset.
\<close>

theorem manifest_order:
  assumes "process_entries data scanned = Inr manifest"
    and "entries = sort_key e_offset scanned"
  shows "sorted (map (\<lambda>(m, out). original_offset m) manifest) \<and>
         sorted_wrt (<) (map (\<lambda>(m, out). m_id m) manifest) \<and>
         (\<forall>(m, out) \<in> set manifest.
            m_id m < length entries \<and> original_offset m = e_offset (entries ! m_id m))"
proof -
  define sz where "sz = inferred_size entries (data_end_limit entries (length data)) (length data)"
  define ids where "ids = filter (\<lambda>i. 0 < sz i) [0..<length entries]"
  from process_entries_summary [OF assms(1)]
  have summary: "map (\<lambda>(m, out). (m_id m, original_offset m, original_raw_size m)) manifest =
      map (\<lambda>i. (i, e_offset (entries ! i), sz i)) ids"
    by (simp only: assms(2) sz_def ids_def)
  have "map (\<lambda>(m, out). m_id m) manifest =
      map fst (map (\<lambda>(m, out). (m_id m, original_offset m, original_raw_size m)) manifest)"
    by (simp add: case_prod_beta comp_def)
  with summary have id_list: "map (\<lambda>(m, out). m_id m) manifest = ids"
    by (simp add: comp_def)
  have "map (\<lambda>(m, out). original_offset m) manifest =
      map (fst \<circ> snd) (map (\<lambda>(m, out). (m_id m, original_offset m, original_raw_size m)) manifest)"
    by (simp add: case_prod_beta comp_def)
  with summary have off_list:
    "map (\<lambda>(m, out). original_offset m) manifest = map (\<lambda>i. e_offset (entries ! i)) ids"
    by (simp add: comp_def)
  have strict: "sorted_wrt (<) ids"
    unfolding ids_def by (rule sorted_wrt_filter) simp
  have bound: "\<forall>i \<in> set ids. i < length entries"
    by (simp add: ids_def)
  have "sorted (map e_offset entries)"
    by (simp add: assms(2))
  from sorted_map_nth [OF this strict bound]
  have offs: "sorted (map (\<lambda>(m, out). original_offset m) manifest)"
    by (simp only: off_list)
  have each: "m_id m < length entries \<and> original_offset m = e_offset (entries ! m_id m)"
    if "(m, out) \<in> set manifest" for m out
  proof -
    from that have "(m_id m, original_offset m, original_raw_size m) \<in>
        set (map (\<lambda>(m, out). (m_id m, original_offset m, original_raw_size m)) manifest)"
      by force
    with summary obtain i where "i \<in> set ids" and "m_id m = i"
      and "original_offset m = e_offset (entries ! i)"
      by auto
    with bound show ?thesis by simp
  qed
  from offs strict each show ?thesis
    by (auto simp only: id_list)
qed

lemma shared_offset_entries_sorted:
  "sort_key e_offset shared_offset_entries =
     [\<lparr>e_meta_pos = 796, e_offset = 50, e_width = 0, e_height = 0, e_original_name = ''y''\<rparr>,
      \<lparr>e_meta_pos = 700, e_offset = 100, e_width = 0, e_height = 0, e_original_name = ''x''\<rparr>,
      \<lparr>e_meta_pos = 892, e_offset = 100, e_width = 0, e_height = 0, e_original_name = ''z''\<rparr>]"
  by (simp add: shared_offset_entries_def)

text \<open>With two descriptors at offset 100, the first of them gets size 0 and is dropped:
  the ids in the manifest are 0 and 2.\<close>

theorem manifest_order_witness:
  "\<exists>manifest. process_entries boundary_data shared_offset_entries = Inr manifest \<and>
     map (\<lambda>(m, out). (m_id m, original_offset m, original_raw_size m)) manifest =
       [(0, 50, 50), (2, 100, 600)] \<and>
     sorted (map (\<lambda>(m, out). original_offset m) manifest) \<and>
     sorted_wrt (<) (map (\<lambda>(m, out). m_id m) manifest)"
proof -
  have "\<forall>e \<in> set shared_offset_entries.
      (\<exists>header. create_bmp_header (e_width e) (e_height e) = Inr header) \<and>
      sanitize_filename (e_original_name e) \<notin> {[], ''.'', ''..''}"
    by (simp add: shared_offset_entries_def create_header_0x0 plain_names)
  from process_entries_total [OF this] obtain manifest where
    run: "process_entries boundary_data shared_offset_entries = Inr manifest"
    by blast
  from process_entries_summary [OF run]
  have "map (\<lambda>(m, out). (m_id m, original_offset m, original_raw_size m)) manifest =
       [(0, 50, 50), (2, 100, 600)]"
    by (simp add: shared_offset_entries_sorted inferred_size_def upt_3 boundary_data_def
        data_end_limit_def)
  moreover have "sorted (map (\<lambda>(m, out). original_offset m) manifest)"
    by (rule manifest_order [OF run refl, THEN conjunct1])
  moreover have "sorted_wrt (<) (map (\<lambda>(m, out). m_id m) manifest)"
    by (rule manifest_order [OF run refl, THEN conjunct2, THEN conjunct1])
  ultimately show ?thesis using run by (intro exI [of _ manifest] conjI)
qed





section \<open>Verification: runs that end with an error\<close>












section \<open>Verification: the run completes\<close>

text \<open>
  The run completes on every partition of at most \<open>2 ^ 30\<close> bytes in which no resource has
  a name that sanitizes to the empty string, \<open>.\<close> or \<open>..\<close>: sizes inferred from scanned
  descriptors never exceed the partition length, so the header of every resource
  classified as an image fits its 32-bit fields.
\<close>

lemma process_loop_returns:
  "(\<forall>i \<in> set is.
      (e_width (entries ! i) > 0 \<and> e_height (entries ! i) > 0 \<and>
       \<bar>raw_size_at entries limit file_size i
          - int (e_width (entries ! i)) * int (e_height (entries ! i)) * 2\<bar> < 4096 \<longrightarrow>
       (\<exists>header. create_bmp_header (e_width (entries ! i)) (e_height (entries ! i)) = Inr header)) \<and>
      sanitize_filename (e_original_name (entries ! i)) \<notin> {[], ''.'', ''..''}) \<Longrightarrow>
   \<exists>manifest. process_loop data entries limit file_size is acc = Inr manifest"
proof (induction "is" arbitrary: acc)
  case Nil
  show ?case by simp
next
  case (Cons i rest)
  then have name: "sanitize_filename (e_original_name (entries ! i)) \<notin> {[], ''.'', ''..''}"
    by simp
  have "\<exists>r. emit_resource data i (entries ! i) (raw_size_at entries limit file_size i) = Inr r"
  proof (cases "e_width (entries ! i) > 0 \<and> e_height (entries ! i) > 0 \<and>
      \<bar>raw_size_at entries limit file_size i
         - int (e_width (entries ! i)) * int (e_height (entries ! i)) * 2\<bar> < 4096")
    case True
    with Cons.prems obtain header where
      "create_bmp_header (e_width (entries ! i)) (e_height (entries ! i)) = Inr header"
      by auto
    from emit_resource_image(1) [OF True this] show ?thesis by blast
  next
    case False
    from emit_resource_plain(2) [OF False name] show ?thesis by blast
  qed
  then obtain r where
    "emit_resource data i (entries ! i) (raw_size_at entries limit file_size i) = Inr r"
    by blast
  moreover from Cons have
    "\<exists>manifest. process_loop data entries limit file_size rest acc' = Inr manifest" for acc'
    by simp
  ultimately show ?case by (simp add: Let_def)
qed

lemma header_fits_small_image:
  assumes "width > 0" and "height > 0"
    and "\<bar>raw_size - int width * int height * 2\<bar> < 4096" and "raw_size \<le> 2 ^ 30"
  shows "\<exists>header. create_bmp_header width height = Inr header"
proof -
  define P where "P = width * height"
  from assms(1,2) have wP: "width \<le> P" and hP: "height \<le> P"
    by (simp_all add: P_def)
  have "int P = int width * int height"
    by (simp add: P_def)
  with assms(3,4) have "\<bar>raw_size - int P * 2\<bar> < 4096" and "raw_size \<le> 1073741824"
    by simp_all
  then have "int P < 536872960"
    by linarith
  then have P: "P < 2 ^ 29 + 2048"
    by simp
  have "width mod 2 \<le> 1" by simp
  then have "(width mod 2) * height \<le> 1 * height"
    by (rule mult_le_mono1)
  then have "(2 * width + 2 * (width mod 2)) * height \<le> 2 * P + 2 * height"
    by (simp add: P_def add_mult_distrib)
  with hP have "(2 * width + 2 * (width mod 2)) * height \<le> 4 * P"
    by simp
  with P have img: "(2 * width + 2 * (width mod 2)) * height < 2 ^ 31 + 8192"
    by simp
  define D where "D = 2 * width + 2 * (width mod 2)"
  from img have "D * height < 2147491840"
    by (simp add: D_def)
  then have "int (D * height) < 2147491840"
    by linarith
  then have "int D * int height < 2147491840"
    by simp
  then have "66 + int D * int height < 4294967296"
    by linarith
  then have "66 + int (2 * width + 2 * (width mod 2)) * int height < 2 ^ 32"
    by (simp add: D_def)
  moreover from wP hP P have "int width < 2 ^ 31" and "int height \<le> 2 ^ 31"
    by simp_all
  ultimately show ?thesis
    using create_bmp_header_ok [OF get_stride_info_eq, of width height] by blast
qed


lemma scan_loop_bounds:
  assumes "e \<in> set (scan_loop data 0 [])"
  shows "e_offset e < length data \<and> e_meta_pos e < length data"
proof -
  from assms scan_loop_eq [of 0 data "[]"]
  obtain pos where "pos < length data" and "e = record_at data pos"
    and "e_offset (record_at data pos) < length data"
    by auto
  then show ?thesis by (simp add: record_at_def)
qed

lemma raw_size_at_bound:
  assumes "\<forall>e \<in> set entries. e_offset e < file_size \<and> e_meta_pos e < file_size"
    and "i < length entries"
  shows "raw_size_at entries (data_end_limit entries file_size) file_size i \<le> int file_size"
proof (cases "i + 1 < length entries")
  case True
  then have "entries ! (i + 1) \<in> set entries" by (rule nth_mem)
  with assms(1) have "e_offset (entries ! (i + 1)) < file_size" by blast
  with True show ?thesis
    by (simp add: raw_size_at_def Let_def)
next
  case False
  from assms(2) have ne: "entries \<noteq> []" by auto
  then have "hd entries \<in> set entries" by simp
  with assms(1) have first: "e_meta_pos (hd entries) < file_size" by blast
  from ne have "Min (set (map e_meta_pos entries)) \<le> e_meta_pos (hd entries)"
    by (intro Min_le) simp_all
  then have "Min (set (map e_meta_pos entries)) < file_size"
    using first by (rule le_less_trans)
  moreover from ne have "data_end_limit entries file_size = Min (set (map e_meta_pos entries))"
    by (simp add: data_end_limit_def min_list_Min)
  ultimately have "data_end_limit entries file_size < file_size"
    by (simp only:)
  with False show ?thesis
    by (simp add: raw_size_at_def Let_def)
qed

lemma bitmap_main_returns:
  assumes "length data \<le> 2 ^ 30"
    and "\<forall>e \<in> set (scan_loop data 0 []).
           sanitize_filename (e_original_name e) \<notin> {[], ''.'', ''..''}"
  shows "\<exists>manifest. bitmap_main data = Inr manifest"
proof -
  define entries where "entries = sort_key e_offset (scan_loop data 0 [])"
  define limit where "limit = data_end_limit entries (length data)"
  have bounds: "\<forall>e \<in> set entries. e_offset e < length data \<and> e_meta_pos e < length data"
    by (simp add: entries_def scan_loop_bounds)
  have names: "\<forall>e \<in> set entries. sanitize_filename (e_original_name e) \<notin> {[], ''.'', ''..''}"
    using assms(2) by (simp add: entries_def)
  have "\<forall>i \<in> set [0..<length entries].
      (e_width (entries ! i) > 0 \<and> e_height (entries ! i) > 0 \<and>
       \<bar>raw_size_at entries limit (length data) i
          - int (e_width (entries ! i)) * int (e_height (entries ! i)) * 2\<bar> < 4096 \<longrightarrow>
       (\<exists>header. create_bmp_header (e_width (entries ! i)) (e_height (entries ! i)) = Inr header)) \<and>
      sanitize_filename (e_original_name (entries ! i)) \<notin> {[], ''.'', ''..''}"
  proof (intro ballI conjI impI)
    fix i
    assume "i \<in> set [0..<length entries]"
      and img: "e_width (entries ! i) > 0 \<and> e_height (entries ! i) > 0 \<and>
        \<bar>raw_size_at entries limit (length data) i
           - int (e_width (entries ! i)) * int (e_height (entries ! i)) * 2\<bar> < 4096"
    then have "i < length entries" by simp
    from raw_size_at_bound [OF bounds this]
    have "raw_size_at entries limit (length data) i \<le> int (length data)"
      by (simp only: limit_def)
    also from assms(1) have "int (length data) \<le> 2 ^ 30"
      by (metis of_nat_le_iff of_nat_numeral of_nat_power)
    finally have "raw_size_at entries limit (length data) i \<le> 2 ^ 30" .
    with img show "\<exists>header.
        create_bmp_header (e_width (entries ! i)) (e_height (entries ! i)) = Inr header"
      by (intro header_fits_small_image) simp_all
  next
    fix i
    assume "i \<in> set [0..<length entries]"
    then have "entries ! i \<in> set entries" by simp
    with names show "sanitize_filename (e_original_name (entries ! i)) \<notin> {[], ''.'', ''..''}"
      by blast
  qed
  from process_loop_returns [OF this] show ?thesis
    by (simp add: bitmap_main_def process_entries_def Let_def entries_def limit_def)
qed

text \<open>A complete run on the example partition: one resource, recognised as a 2 by 1
  image and written as a bitmap.\<close>

lemma emit_fs_image:
  "emit_resource fs_image 0
     \<lparr>e_meta_pos = 4, e_offset = 0, e_width = 2, e_height = 1, e_original_name = ''ab''\<rparr> 4 =
     Inr (\<lparr>m_id = 0, original_firmware_name = ''ab'', original_offset = 0,
           original_raw_size = 4, m_width = 2, m_height = 1, is_image = True,
           m_transformations = \<lparr>byte_swap_applied = True, row_padding_bytes = 0,
                                  bmp_header_size = 66\<rparr>,
           saved_filename = ''ab.bmp''\<rparr>,
          header_2x1 @ [0x34, 0x12, 0x78, 0x56])"
proof -
  have raw: "slice fs_image 0 4 = [0x12, 0x34, 0x56, 0x78]"
    by (simp add: slice_def fs_image_def)
  have sw: "swap_bytes_16bit [0x12, 0x34, 0x56, 0x78] = Inr [0x34, 0x12, 0x78, 0x56]"
    by (simp add: swap_bytes_16bit_eq)
  have rs: "restride_to_bmp [0x34, 0x12, 0x78, 0x56] 2 (Suc 0) = [0x34, 0x12, 0x78, 0x56]"
    by (simp add: restride_to_bmp_def get_stride_info_def)
  have name: "sanitize_filename ''ab'' = ''ab''"
    by (simp add: sanitize_filename_def replace_char_def isalnum_def strip_def isspace_def)
  have sfx: "\<not> endswith (lower ''ab'') ''.bmp''"
    by (simp add: endswith_def lower_def)
  have g: "get_stride_info 2 = (4, 4, 0)"
    by (simp add: get_stride_info_def)
  have hd: "create_bmp_header 2 (Suc 0) = Inr header_2x1"
    using create_header_2x1 by simp
  show ?thesis
    by (simp add: emit_resource_def prepare_resource_def open_output_def Let_def raw sw rs sfx g
        hd length_header_2x1 name)
qed

lemma bitmap_main_fs_image:
  "bitmap_main fs_image =
     Inr [(\<lparr>m_id = 0, original_firmware_name = ''ab'', original_offset = 0,
            original_raw_size = 4, m_width = 2, m_height = 1, is_image = True,
            m_transformations = \<lparr>byte_swap_applied = True, row_padding_bytes = 0,
                                   bmp_header_size = 66\<rparr>,
            saved_filename = ''ab.bmp''\<rparr>,
           header_2x1 @ [0x34, 0x12, 0x78, 0x56])]"
proof -
  have rs: "raw_size_at
      [\<lparr>e_meta_pos = 4, e_offset = 0, e_width = 2, e_height = Suc 0, e_original_name = ''ab''\<rparr>]
      4 (length fs_image) 0 = 4"
    by (simp add: raw_size_at_def)
  show ?thesis
    using emit_fs_image
    by (simp add: bitmap_main_def scan_fs_image process_entries_def Let_def data_end_limit_def rs)
qed

end
